theory Spec2Isabelle
  imports
    Main
    "HOL-Library.AList"
    "HOL-Library.Char_ord"
    "HOL-Library.List_Lexorder"
    "HOL-Library.Sublist"
    "HOL-Library.Word"
begin

section \<open>Data model of config.go\<close>

text \<open>
  The records follow the Go structs of \<^verbatim>\<open>config.go\<close>. A Go \<^verbatim>\<open>map[string]string\<close> that the
  code ranges over (headers, cookies, variables) is an association list with one entry per
  key, in the order in which the \<^verbatim>\<open>range\<close> loop happens to visit it (Go leaves that order
  unspecified, so theorems hold for every order). A map that is only looked up by key (the
  auth descriptor) is a partial function. A \<^verbatim>\<open>nil\<close> map and an empty map behave the same in
  all code modelled here. The two structs share field names in Go; the environment's
  headers and cookies are called \<open>EnvHeaders\<close> and \<open>EnvCookies\<close> here.
\<close>

typedecl jsonValue

record RequestConfig =
  Name :: string
  Description :: string
  Method :: string
  URL :: string
  Headers :: "(string \<times> string) list"
  Cookies :: "(string \<times> string) list"
  Body :: string
  ActiveBody :: string
  Params :: "(string \<times> jsonValue) list"
  Timeout :: "64 word"

record Environment =
  BaseURL :: string
  EnvHeaders :: "(string \<times> string) list"
  EnvCookies :: "(string \<times> string) list"
  Auth :: "string \<rightharpoonup> string"
  Variables :: "(string \<times> string) list"

type_synonym path = "string list"

record ConfigManager =
  requestsDir :: path
  environmentsDir :: path

text \<open>
  Functions of the Go standard library whose results the code only passes on are
  parameters of the model: the JSON codec for the two structs (\<^verbatim>\<open>json.MarshalIndent\<close>,
  \<^verbatim>\<open>json.Unmarshal\<close>, the latter failing with \<open>None\<close>), the validation done by
  \<^verbatim>\<open>http.NewRequest\<close> on method and URL, and the credentials string built by
  \<^verbatim>\<open>SetBasicAuth\<close>.
\<close>

record golib =
  jsonMarshalRequest :: "RequestConfig \<Rightarrow> string"
  jsonUnmarshalRequest :: "string \<Rightarrow> RequestConfig option"
  jsonMarshalEnvironment :: "Environment \<Rightarrow> string"
  jsonUnmarshalEnvironment :: "string \<Rightarrow> Environment option"
  newRequestRejects :: "string \<Rightarrow> string \<Rightarrow> bool"
  basicAuth :: "string \<Rightarrow> string \<Rightarrow> string"

section \<open>The file system\<close>

text \<open>
  A file system is a table from absolute paths (lists of names, the root being \<open>[]\<close>) to
  nodes. A path is resolved name by name, as the kernel does: every proper prefix has to
  be a directory, so an entry of the table whose parent is no directory of the table does
  not exist for any operation. Names are taken to be plain file names (no separator, not
  \<^verbatim>\<open>.\<close> or \<^verbatim>\<open>..\<close>). Permissions, symbolic links and device errors are not modelled, so
  the only failures are the structural ones below.
\<close>

datatype errno = ENOENT | ENOTDIR | EISDIR | ENOTEMPTY | EBUSY

datatype node = File string | Dir

type_synonym filesystem = "(path \<times> node) list"

fun statRev :: "filesystem \<Rightarrow> path \<Rightarrow> errno + node" where
  "statRev fs [] = Inr Dir"
| "statRev fs (c # rp) =
     (case statRev fs rp of
        Inl e \<Rightarrow> Inl e
      | Inr (File _) \<Rightarrow> Inl ENOTDIR
      | Inr Dir \<Rightarrow> (case map_of fs (rev (c # rp)) of None \<Rightarrow> Inl ENOENT | Some n \<Rightarrow> Inr n))"

definition osStat :: "filesystem \<Rightarrow> path \<Rightarrow> errno + node" where
  "osStat fs p = statRev fs (rev p)"

definition osReadFile :: "filesystem \<Rightarrow> path \<Rightarrow> errno + string" where
  "osReadFile fs p =
     (case osStat fs p of Inl e \<Rightarrow> Inl e | Inr Dir \<Rightarrow> Inl EISDIR | Inr (File d) \<Rightarrow> Inr d)"

definition osWriteFile :: "filesystem \<Rightarrow> path \<Rightarrow> string \<Rightarrow> errno + filesystem" where
  "osWriteFile fs p d =
     (case osStat fs p of
        Inr Dir \<Rightarrow> Inl EISDIR
      | Inr (File _) \<Rightarrow> Inr (AList.update p (File d) fs)
      | Inl e \<Rightarrow>
          (if e = ENOENT \<and> p \<noteq> [] \<and> osStat fs (butlast p) = Inr Dir
           then Inr (AList.update p (File d) fs) else Inl e))"

definition hasEntries :: "filesystem \<Rightarrow> path \<Rightarrow> bool" where
  "hasEntries fs p = list_ex (\<lambda>(q, n). q \<noteq> [] \<and> butlast q = p) fs"

definition osRemove :: "filesystem \<Rightarrow> path \<Rightarrow> errno + filesystem" where
  "osRemove fs p =
     (case osStat fs p of
        Inl e \<Rightarrow> Inl e
      | Inr (File _) \<Rightarrow> Inr (AList.delete p fs)
      | Inr Dir \<Rightarrow>
          (if p = [] then Inl EBUSY
           else if hasEntries fs p then Inl ENOTEMPTY
           else Inr (AList.delete p fs)))"

fun mkdirAllRev :: "filesystem \<Rightarrow> path \<Rightarrow> errno + filesystem" where
  "mkdirAllRev fs [] = Inr fs"
| "mkdirAllRev fs (c # rp) =
     (case statRev fs (c # rp) of
        Inr Dir \<Rightarrow> Inr fs
      | Inr (File _) \<Rightarrow> Inl ENOTDIR
      | Inl _ \<Rightarrow>
          (case mkdirAllRev fs rp of
             Inl e \<Rightarrow> Inl e
           | Inr fs' \<Rightarrow> Inr (AList.update (rev (c # rp)) Dir fs')))"

definition osMkdirAll :: "filesystem \<Rightarrow> path \<Rightarrow> errno + filesystem" where
  "osMkdirAll fs p = mkdirAllRev fs (rev p)"

definition osReadDir :: "filesystem \<Rightarrow> path \<Rightarrow> errno + string list" where
  \<comment> \<open>the names of the entries of a directory, sorted by name\<close>
  "osReadDir fs p =
     (case osStat fs p of
        Inl e \<Rightarrow> Inl e
      | Inr (File _) \<Rightarrow> Inl ENOTDIR
      | Inr Dir \<Rightarrow>
          Inr (sort (remdups (map last (filter (\<lambda>q. q \<noteq> [] \<and> butlast q = p) (map fst fs))))))"

definition isFile :: "filesystem \<Rightarrow> path \<Rightarrow> bool" where
  "isFile fs p = (case osStat fs p of Inr (File _) \<Rightarrow> True | _ \<Rightarrow> False)"

definition walkFiles :: "filesystem \<Rightarrow> path \<Rightarrow> path list" where
  \<comment> \<open>the regular files below a directory, in the order \<^verbatim>\<open>filepath.WalkDir\<close> visits them:
      depth first, the entries of each directory by name\<close>
  "walkFiles fs root =
     filter (\<lambda>q. strict_prefix root q \<and> isFile fs q)
       (sort (remdups (map fst fs)))"

section \<open>Strings and paths\<close>

definition hasSuffix :: "string \<Rightarrow> string \<Rightarrow> bool" where
  "hasSuffix s suf = suffix suf s"

definition trimSuffix :: "string \<Rightarrow> string \<Rightarrow> string" where
  "trimSuffix s suf = (if hasSuffix s suf then take (length s - length suf) s else s)"

fun joinPath :: "path \<Rightarrow> string" where
  "joinPath [] = ''.''"
| "joinPath [c] = c"
| "joinPath (c # cs) = c @ ''/'' @ joinPath cs"

text \<open>
  A logical request path such as \<^verbatim>\<open>users/get-users\<close> is the list of its names.
  \<open>addExt p e\<close> is \<^verbatim>\<open>p + e\<close> on that list: the extension goes to the last name.
\<close>

definition addExt :: "path \<Rightarrow> string \<Rightarrow> path" where
  "addExt p e = (case rev p of [] \<Rightarrow> [e] | c # rp \<Rightarrow> rev rp @ [c @ e])"

fun replaceNE :: "string \<Rightarrow> char \<Rightarrow> string \<Rightarrow> string \<Rightarrow> string" where
  "replaceNE [] o1 os new = []"
| "replaceNE (c # cs) o1 os new =
     (if prefix (o1 # os) (c # cs) then new @ replaceNE (drop (length os) cs) o1 os new
      else c # replaceNE cs o1 os new)"

definition replaceAll :: "string \<Rightarrow> string \<Rightarrow> string \<Rightarrow> string" where
  \<comment> \<open>\<^verbatim>\<open>strings.ReplaceAll\<close>: the non-overlapping occurrences of \<open>old\<close>, from the left; an
      empty \<open>old\<close> matches before every byte and at the end\<close>
  "replaceAll s old new =
     (case old of
        [] \<Rightarrow> new @ concat (map (\<lambda>c. c # new) s)
      | o1 # os \<Rightarrow> replaceNE s o1 os new)"

section \<open>Request and environment store\<close>

datatype error =
    ReadingConfigFile errno
  | ParsingConfigFile
  | ReadingEnvironmentFile errno
  | ParsingEnvironmentFile
  | CreatingDirectory errno
  | WritingConfigFile errno
  | WritingEnvironmentFile string errno
  | ReadingRequestsDirectory errno
  | CreatingUsersDirectory errno
  | InitializingDefaultFiles error
  | LoadingRequest error
  | LoadingEnvironment error
  | CreatingRequest
  | BodyFileDoesNotExistIn string path
  | BodyFileDoesNotExist string
  | RemovingBodyFile errno
  | WalkError errno

definition writeConfigFile ::
  "golib \<Rightarrow> filesystem \<Rightarrow> path \<Rightarrow> RequestConfig \<Rightarrow> error option \<times> filesystem" where
  "writeConfigFile L fs filePath config =
     (case osWriteFile fs filePath (jsonMarshalRequest L config) of
        Inl e \<Rightarrow> (Some (WritingConfigFile e), fs)
      | Inr fs' \<Rightarrow> (None, fs'))"

definition SaveRequest ::
  "golib \<Rightarrow> ConfigManager \<Rightarrow> filesystem \<Rightarrow> path \<Rightarrow> RequestConfig \<Rightarrow> error option \<times> filesystem" where
  "SaveRequest L cm fs path config =
     (let filePath = requestsDir cm @ addExt path ''.json'';
          subdirPath = requestsDir cm @ path @ [''request.json'']
      in if \<not> isl (osStat fs (requestsDir cm @ path))
         then writeConfigFile L fs subdirPath config
         else (case osMkdirAll fs (butlast filePath) of
                 Inl e \<Rightarrow> (Some (CreatingDirectory e), fs)
               | Inr fs1 \<Rightarrow> writeConfigFile L fs1 filePath config))"

definition LoadRequest ::
  "golib \<Rightarrow> ConfigManager \<Rightarrow> filesystem \<Rightarrow> path \<Rightarrow> error + RequestConfig" where
  "LoadRequest L cm fs path =
     (let flat = requestsDir cm @ addExt path ''.json'';
          filePath = (if osStat fs flat = Inl ENOENT
                      then requestsDir cm @ path @ [''request.json''] else flat)
      in case osReadFile fs filePath of
           Inl e \<Rightarrow> Inl (ReadingConfigFile e)
         | Inr data \<Rightarrow>
             (case jsonUnmarshalRequest L data of
                None \<Rightarrow> Inl ParsingConfigFile
              | Some config \<Rightarrow> Inr config))"

definition LoadEnvironment ::
  "golib \<Rightarrow> ConfigManager \<Rightarrow> filesystem \<Rightarrow> string \<Rightarrow> error + Environment" where
  "LoadEnvironment L cm fs name =
     (case osReadFile fs (environmentsDir cm @ [name @ ''.json'']) of
        Inl e \<Rightarrow> Inl (ReadingEnvironmentFile e)
      | Inr data \<Rightarrow>
          (case jsonUnmarshalEnvironment L data of
             None \<Rightarrow> Inl ParsingEnvironmentFile
           | Some env \<Rightarrow> Inr env))"

text \<open>
  \<open>ListRequests\<close>: the callback of the walk returns at once for directories and for names
  without the suffix \<^verbatim>\<open>.json\<close>; every other file is appended to the group of its directory.
  \<open>relPath\<close> is the path relative to the request root, \<open>dirOf\<close> is \<^verbatim>\<open>filepath.Dir\<close> of the
  relative path once the suffix is cut.
\<close>

definition relPathOf :: "path \<Rightarrow> string" where
  "relPathOf rel = trimSuffix (joinPath rel) ''.json''"

definition dirOf :: "path \<Rightarrow> string" where
  "dirOf rel = (let dir = joinPath (butlast rel) in if dir = ''.'' then ''root'' else dir)"

definition addRequest :: "(string \<rightharpoonup> string list) \<Rightarrow> path \<Rightarrow> (string \<rightharpoonup> string list)" where
  "addRequest requests rel =
     (if rel \<noteq> [] \<and> hasSuffix (last rel) ''.json''
      then requests(dirOf rel \<mapsto> (case requests (dirOf rel) of None \<Rightarrow> [] | Some l \<Rightarrow> l) @ [relPathOf rel])
      else requests)"

definition ListRequests ::
  "ConfigManager \<Rightarrow> filesystem \<Rightarrow> (string \<rightharpoonup> string list) \<times> error option" where
  "ListRequests cm fs =
     (case osStat fs (requestsDir cm) of
        Inl e \<Rightarrow> (Map.empty, Some (WalkError e))
      | Inr (File _) \<Rightarrow>
          (if hasSuffix (last (requestsDir cm)) ''.json''
           then ([''root'' \<mapsto> [''.'']], None) else (Map.empty, None))
      | Inr Dir \<Rightarrow>
          (foldl addRequest Map.empty
             (map (drop (length (requestsDir cm))) (walkFiles fs (requestsDir cm))), None))"

section \<open>Workspace initialisation\<close>

text \<open>
  The default environments are a Go map; the loop over it is modelled in the order
  \<^verbatim>\<open>dev\<close>, \<^verbatim>\<open>prod\<close>. The lemmas about the loop hold for any list of environments with
  distinct names.
\<close>

definition defaultEnvs :: "(string \<times> Environment) list" where
  "defaultEnvs =
     [(''dev'', \<lparr>BaseURL = ''http://localhost:3000'',
               EnvHeaders = [(''Content-Type'', ''application/json'')],
               EnvCookies = [], Auth = Map.empty,
               Variables = [(''host'', ''localhost:3000'')]\<rparr>),
      (''prod'', \<lparr>BaseURL = ''https://api.example.com'',
               EnvHeaders = [(''Content-Type'', ''application/json'')],
               EnvCookies = [], Auth = Map.empty,
               Variables = [(''host'', ''api.example.com'')]\<rparr>)]"

definition sampleRequest :: RequestConfig where
  "sampleRequest =
     \<lparr>Name = ''Get Users (this is a sample request so you wont think this is a dead project)'',
      Description = ''Fetch all users from the API'',
      Method = ''GET'', URL = ''/users'', Headers = [], Cookies = [], Body = [],
      ActiveBody = [], Params = [], Timeout = 30\<rparr>"

fun writeDefaultEnvs ::
  "golib \<Rightarrow> ConfigManager \<Rightarrow> (string \<times> Environment) list \<Rightarrow> filesystem \<Rightarrow> error option \<times> filesystem" where
  "writeDefaultEnvs L cm [] fs = (None, fs)"
| "writeDefaultEnvs L cm ((name, env) # rest) fs =
     (let envFile = environmentsDir cm @ [name @ ''.json'']
      in if osStat fs envFile = Inl ENOENT
         then (case osWriteFile fs envFile (jsonMarshalEnvironment L env) of
                 Inl e \<Rightarrow> (Some (WritingEnvironmentFile name e), fs)
               | Inr fs' \<Rightarrow> writeDefaultEnvs L cm rest fs')
         else writeDefaultEnvs L cm rest fs)"

definition initializeDefaultFiles ::
  "golib \<Rightarrow> ConfigManager \<Rightarrow> filesystem \<Rightarrow> error option \<times> filesystem" where
  "initializeDefaultFiles L cm fs =
     (case writeDefaultEnvs L cm defaultEnvs fs of
        (Some err, fs1) \<Rightarrow> (Some err, fs1)
      | (None, fs1) \<Rightarrow>
          (case osReadDir fs1 (requestsDir cm) of
             Inl e \<Rightarrow> (Some (ReadingRequestsDirectory e), fs1)
           | Inr entries \<Rightarrow>
               (if length entries = 0
                then (case osMkdirAll fs1 (requestsDir cm @ [''users'']) of
                        Inl e \<Rightarrow> (Some (CreatingUsersDirectory e), fs1)
                      | Inr fs2 \<Rightarrow> SaveRequest L cm fs2 [''users'', ''get-users''] sampleRequest)
                else (None, fs1))))"

definition workspace :: "path \<Rightarrow> ConfigManager" where
  "workspace cwd = \<lparr>requestsDir = cwd @ [''requests''], environmentsDir = cwd @ [''environments'']\<rparr>"

definition NewConfigManager ::
  "golib \<Rightarrow> path \<Rightarrow> filesystem \<Rightarrow> (error + ConfigManager) \<times> filesystem" where
  "NewConfigManager L cwd fs =
     (let cm = workspace cwd
      in case osMkdirAll fs (requestsDir cm) of
           Inl e \<Rightarrow> (Inl (CreatingDirectory e), fs)
         | Inr fs1 \<Rightarrow>
             (case osMkdirAll fs1 (environmentsDir cm) of
                Inl e \<Rightarrow> (Inl (CreatingDirectory e), fs1)
              | Inr fs2 \<Rightarrow>
                  (case initializeDefaultFiles L cm fs2 of
                     (Some err, fs3) \<Rightarrow> (Inl (InitializingDefaultFiles err), fs3)
                   | (None, fs3) \<Rightarrow> (Inr cm, fs3))))"

section \<open>Request execution\<close>

text \<open>
  The outbound \<^verbatim>\<open>http.Request\<close>. Every header the code writes goes through
  \<^verbatim>\<open>Header.Set\<close>, which stores one value under the canonical form of the key, so the
  header is a map from canonical keys to single values. \<^verbatim>\<open>AddCookie\<close> writes to the same
  map: it cleans name and value of the cookie and appends \<^verbatim>\<open>name=value\<close> to the \<^verbatim>\<open>Cookie\<close>
  line, after \<^verbatim>\<open>; \<close> when the line is not empty. It never replaces a cookie of the
  line.
\<close>

record httpRequest =
  reqMethod :: string
  reqURL :: string
  reqBody :: "string option"
  reqHeader :: "string \<rightharpoonup> string"

definition validHeaderFieldByte :: "char \<Rightarrow> bool" where
  "validHeaderFieldByte c =
     ((CHR ''a'' \<le> c \<and> c \<le> CHR ''z'') \<or> (CHR ''A'' \<le> c \<and> c \<le> CHR ''Z'') \<or>
      (CHR ''0'' \<le> c \<and> c \<le> CHR ''9'') \<or>
      c \<in> set ''!#$%&*+-.^_|~'' \<or> c = CHR 0x27 \<or> c = CHR 0x60)"

fun canonBytes :: "bool \<Rightarrow> string \<Rightarrow> string" where
  "canonBytes upper [] = []"
| "canonBytes upper (c # cs) =
     (let c' = (if upper \<and> CHR ''a'' \<le> c \<and> c \<le> CHR ''z'' then char_of (of_char c - (32::nat))
                else if \<not> upper \<and> CHR ''A'' \<le> c \<and> c \<le> CHR ''Z'' then char_of (of_char c + (32::nat))
                else c)
      in c' # canonBytes (c' = CHR ''-'') cs)"

definition canonicalMIMEHeaderKey :: "string \<Rightarrow> string" where
  \<comment> \<open>\<^verbatim>\<open>textproto.CanonicalMIMEHeaderKey\<close>: a key with a byte that is no token character
      is left as it is; otherwise the first letter and every letter after a hyphen go to
      upper case, the others to lower case\<close>
  "canonicalMIMEHeaderKey s = (if list_all validHeaderFieldByte s then canonBytes True s else s)"

definition headerSet :: "string \<Rightarrow> string \<Rightarrow> httpRequest \<Rightarrow> httpRequest" where
  "headerSet key v req = req\<lparr>reqHeader := (reqHeader req)(canonicalMIMEHeaderKey key \<mapsto> v)\<rparr>"

definition headerGet :: "httpRequest \<Rightarrow> string \<Rightarrow> string" where
  \<comment> \<open>\<^verbatim>\<open>Header.Get\<close>: the value under the canonical key, the empty string when there is none\<close>
  "headerGet req key = (case reqHeader req (canonicalMIMEHeaderKey key) of None \<Rightarrow> [] | Some v \<Rightarrow> v)"

definition sanitizeCookieName :: "string \<Rightarrow> string" where
  \<comment> \<open>line feed and carriage return become a hyphen\<close>
  "sanitizeCookieName n = map (\<lambda>c. if c = CHR 0x0A \<or> c = CHR 0x0D then CHR ''-'' else c) n"

definition validCookieValueByte :: "char \<Rightarrow> bool" where
  "validCookieValueByte b =
     (CHR 0x20 \<le> b \<and> b < CHR 0x7F \<and> b \<noteq> CHR 0x22 \<and> b \<noteq> CHR '';'' \<and> b \<noteq> CHR 0x5C)"

definition sanitizeCookieValue :: "string \<Rightarrow> string" where
  \<comment> \<open>invalid bytes are dropped; what is left is put in double quotes when it holds a space
      or a comma\<close>
  "sanitizeCookieValue v =
     (let v' = filter validCookieValueByte v
      in if v' = [] then v'
         else if CHR '' '' \<in> set v' \<or> CHR '','' \<in> set v' then CHR 0x22 # v' @ [CHR 0x22]
         else v')"

definition addCookie :: "string \<Rightarrow> string \<Rightarrow> httpRequest \<Rightarrow> httpRequest" where
  "addCookie name v req =
     (let s = sanitizeCookieName name @ ''='' @ sanitizeCookieValue v;
          c = headerGet req ''Cookie''
      in if c \<noteq> [] then headerSet ''Cookie'' (c @ ''; '' @ s) req
         else headerSet ''Cookie'' s req)"

definition applyHeaders :: "(string \<times> string) list \<Rightarrow> httpRequest \<Rightarrow> httpRequest" where
  "applyHeaders hs req = foldl (\<lambda>r (key, v). if v \<noteq> [] then headerSet key v r else r) req hs"

definition applyCookies :: "(string \<times> string) list \<Rightarrow> httpRequest \<Rightarrow> httpRequest" where
  "applyCookies cs req = foldl (\<lambda>r (name, v). if v \<noteq> [] then addCookie name v r else r) req cs"

definition applyAuth :: "golib \<Rightarrow> (string \<rightharpoonup> string) \<Rightarrow> httpRequest \<Rightarrow> httpRequest" where
  "applyAuth L auth req =
     (case auth ''type'' of
        None \<Rightarrow> req
      | Some authType \<Rightarrow>
          if authType = [] then req
          else if authType = ''bearer'' then
            (case auth ''token'' of
               None \<Rightarrow> req
             | Some token \<Rightarrow>
                 if token \<noteq> [] then headerSet ''Authorization'' (''Bearer '' @ token) req else req)
          else if authType = ''basic'' then
            (case auth ''username'' of
               None \<Rightarrow> req
             | Some username \<Rightarrow>
                 (case auth ''password'' of
                    None \<Rightarrow> req
                  | Some password \<Rightarrow>
                      headerSet ''Authorization'' (''Basic '' @ basicAuth L username password) req))
          else if authType = ''api-key'' then
            (case auth ''key'' of
               None \<Rightarrow> req
             | Some key \<Rightarrow>
                 if key = [] then req
                 else (case auth ''header'' of
                         None \<Rightarrow> req
                       | Some header \<Rightarrow> if header \<noteq> [] then headerSet header key req else req))
          else req)"

definition stripSlash :: "string \<Rightarrow> string" where
  "stripSlash baseURL =
     (if baseURL \<noteq> [] \<and> last baseURL = CHR ''/'' then butlast baseURL else baseURL)"

definition substituteVariables :: "(string \<times> string) list \<Rightarrow> string \<Rightarrow> string" where
  "substituteVariables vars fullURL =
     foldl (\<lambda>url (key, v). replaceAll url (''{{'' @ key @ ''}}'') v) fullURL vars"

definition resolveURL :: "Environment \<Rightarrow> RequestConfig \<Rightarrow> string" where
  "resolveURL env config = substituteVariables (Variables env) (stripSlash (BaseURL env) @ URL config)"

definition selectBody :: "ConfigManager \<Rightarrow> filesystem \<Rightarrow> path \<Rightarrow> RequestConfig \<Rightarrow> string" where
  "selectBody cm fs requestPath config =
     (if ActiveBody config \<noteq> [] then
        (let requestDir = requestsDir cm @ requestPath
         in if \<not> isl (osStat fs requestDir) then
              (case osReadFile fs (requestDir @ [ActiveBody config @ ''.json'']) of
                 Inr bodyData \<Rightarrow> bodyData
               | Inl _ \<Rightarrow> Body config)
            else Body config)
      else Body config)"

definition newRequest :: "string \<Rightarrow> string \<Rightarrow> string \<Rightarrow> httpRequest" where
  \<comment> \<open>\<^verbatim>\<open>http.NewRequest\<close> once method and URL are accepted: an empty method means GET, an
      empty body text means no body\<close>
  "newRequest method fullURL bodyToUse =
     \<lparr>reqMethod = (if method = [] then ''GET'' else method), reqURL = fullURL,
      reqBody = (if bodyToUse \<noteq> [] then Some bodyToUse else None),
      reqHeader = Map.empty\<rparr>"

definition effectiveTimeout :: "64 word \<Rightarrow> 64 word" where
  \<comment> \<open>nanoseconds: \<^verbatim>\<open>time.Duration(config.Timeout) * time.Second\<close> in 64-bit arithmetic\<close>
  "effectiveTimeout t = (let timeout = t * 1000000000 in if timeout = 0 then 30 * 1000000000 else timeout)"

definition prepareRequest ::
  "golib \<Rightarrow> RequestConfig \<Rightarrow> Environment \<Rightarrow> string \<Rightarrow> httpRequest" where
  "prepareRequest L config env bodyToUse =
     applyAuth L (Auth env)
       (applyCookies (Cookies config)
         (applyCookies (EnvCookies env)
           (applyHeaders (Headers config)
             (applyHeaders (EnvHeaders env)
               (newRequest (Method config) (resolveURL env config) bodyToUse)))))"

text \<open>
  \<open>ExecuteRequest\<close> up to the call of \<^verbatim>\<open>client.Do\<close>: the result is the request handed to
  the HTTP client and the client's timeout. The network exchange itself is outside the
  model.
\<close>

definition ExecuteRequest ::
  "golib \<Rightarrow> ConfigManager \<Rightarrow> filesystem \<Rightarrow> path \<Rightarrow> string \<Rightarrow> error + httpRequest \<times> 64 word" where
  "ExecuteRequest L cm fs requestPath envName =
     (case LoadRequest L cm fs requestPath of
        Inl err \<Rightarrow> Inl (LoadingRequest err)
      | Inr config \<Rightarrow>
          (case LoadEnvironment L cm fs envName of
             Inl err \<Rightarrow> Inl (LoadingEnvironment err)
           | Inr env \<Rightarrow>
               (if newRequestRejects L (Method config) (resolveURL env config)
                then Inl CreatingRequest
                else Inr (prepareRequest L config env (selectBody cm fs requestPath config),
                          effectiveTimeout (Timeout config)))))"

section \<open>Body variants\<close>

definition SetActiveBody ::
  "golib \<Rightarrow> ConfigManager \<Rightarrow> filesystem \<Rightarrow> path \<Rightarrow> string \<Rightarrow> error option \<times> filesystem" where
  "SetActiveBody L cm fs requestPath bodyName =
     (case LoadRequest L cm fs requestPath of
        Inl err \<Rightarrow> (Some (LoadingRequest err), fs)
      | Inr config \<Rightarrow>
          (let requestDir = requestsDir cm @ requestPath;
               bodyFilePath = requestDir @ [bodyName @ ''.json'']
           in if osStat fs bodyFilePath = Inl ENOENT
              then (Some (BodyFileDoesNotExistIn bodyName requestPath), fs)
              else SaveRequest L cm fs requestPath (config\<lparr>ActiveBody := bodyName\<rparr>)))"

definition RemoveBody ::
  "golib \<Rightarrow> ConfigManager \<Rightarrow> filesystem \<Rightarrow> path \<Rightarrow> string \<Rightarrow> error option \<times> filesystem" where
  "RemoveBody L cm fs requestPath bodyName =
     (let requestDir = requestsDir cm @ requestPath;
          bodyFilePath = requestDir @ [bodyName @ ''.json'']
      in if osStat fs bodyFilePath = Inl ENOENT
         then (Some (BodyFileDoesNotExist bodyName), fs)
         else (case osRemove fs bodyFilePath of
                 Inl e \<Rightarrow> (Some (RemovingBodyFile e), fs)
               | Inr fs1 \<Rightarrow>
                   (case LoadRequest L cm fs1 requestPath of
                      Inl err \<Rightarrow> (Some (LoadingRequest err), fs1)
                    | Inr config \<Rightarrow>
                        (if ActiveBody config = bodyName
                         then SaveRequest L cm fs1 requestPath (config\<lparr>ActiveBody := []\<rparr>)
                         else (None, fs1)))))"

text \<open>
  \<open>ListBodies\<close>: the variants of a request are the regular files of its directory whose
  name ends in \<^verbatim>\<open>.json\<close>, the record file \<^verbatim>\<open>request.json\<close> excepted; a directory that cannot
  be read gives no variant.
\<close>

definition ListBodies ::
  "golib \<Rightarrow> ConfigManager \<Rightarrow> filesystem \<Rightarrow> path \<Rightarrow> error + string list \<times> string" where
  "ListBodies L cm fs requestPath =
     (case LoadRequest L cm fs requestPath of
        Inl err \<Rightarrow> Inl (LoadingRequest err)
      | Inr config \<Rightarrow>
          (let requestDir = requestsDir cm @ requestPath;
               bodyFiles =
                 (case osReadDir fs requestDir of
                    Inl _ \<Rightarrow> []
                  | Inr entries \<Rightarrow>
                      map (\<lambda>name. trimSuffix name ''.json'')
                        (filter (\<lambda>name. isFile fs (requestDir @ [name]) \<and>
                                         hasSuffix name ''.json'' \<and> name \<noteq> ''request.json'')
                           entries))
           in Inr (bodyFiles, ActiveBody config)))"

section \<open>Notions used in the statements\<close>

text \<open>
  The entries of a header map with every key in the canonical form under which
  \<^verbatim>\<open>Header.Set\<close> stores it, and the part of such a map that is sent: the entries with a
  non-empty value.
\<close>

definition canonicalEntries :: "(string \<times> string) list \<Rightarrow> (string \<times> string) list" where
  "canonicalEntries hs = map (\<lambda>(k, v). (canonicalMIMEHeaderKey k, v)) hs"

definition sentEntries :: "(string \<times> string) list \<Rightarrow> (string \<times> string) list" where
  "sentEntries hs = filter (\<lambda>(k, v). v \<noteq> []) hs"

text \<open>
  The \<^verbatim>\<open>Cookie\<close> line that a list of cookies makes, and the header keys that the
  authentication step can write.
\<close>

definition cookiePair :: "string \<times> string \<Rightarrow> string" where
  "cookiePair c = sanitizeCookieName (fst c) @ ''='' @ sanitizeCookieValue (snd c)"

fun cookieLine :: "(string \<times> string) list \<Rightarrow> string" where
  "cookieLine [] = []"
| "cookieLine [c] = cookiePair c"
| "cookieLine (c # cs) = cookiePair c @ ''; '' @ cookieLine cs"

definition authKeys :: "(string \<rightharpoonup> string) \<Rightarrow> string set" where
  "authKeys auth =
     insert ''Authorization''
       (case auth ''header'' of None \<Rightarrow> {} | Some header \<Rightarrow> {canonicalMIMEHeaderKey header})"

text \<open>An auth descriptor that selects no scheme, or a scheme with a missing part.\<close>

definition authIgnored :: "(string \<rightharpoonup> string) \<Rightarrow> bool" where
  "authIgnored auth =
     (case auth ''type'' of
        None \<Rightarrow> True
      | Some t \<Rightarrow>
          t = [] \<or> t \<notin> {''bearer'', ''basic'', ''api-key''} \<or>
          (t = ''bearer'' \<and> (auth ''token'' = None \<or> auth ''token'' = Some [])) \<or>
          (t = ''api-key'' \<and> (auth ''key'' = None \<or> auth ''key'' = Some [] \<or>
                               auth ''header'' = None \<or> auth ''header'' = Some [])))"

text \<open>The placeholder of a variable, and keys without braces.\<close>

definition noBrace :: "string \<Rightarrow> bool" where
  "noBrace s = (CHR ''{'' \<notin> set s \<and> CHR ''}'' \<notin> set s)"

definition placeholder :: "string \<Rightarrow> string" where
  "placeholder key = ''{{'' @ key @ ''}}''"

text \<open>The logical paths that a result of \<open>ListRequests\<close> holds under a group.\<close>

definition listed :: "(string \<rightharpoonup> string list) \<Rightarrow> string \<Rightarrow> string set" where
  "listed requests g = (case requests g of None \<Rightarrow> {} | Some l \<Rightarrow> set l)"

text \<open>
  The examples need some JSON codec. This stand-in knows two documents by name, a request
  record and an environment with headers, cookies, variables and an auth descriptor of an
  unknown type; of any other document it writes and reads a single field, the active body
  of a record and the base URL of an environment. It accepts every method and URL.
\<close>

definition exampleRecord :: RequestConfig where
  "exampleRecord =
     \<lparr>Name = ''example'', Description = [], Method = ''POST'', URL = ''/v1/x'',
      Headers = [], Cookies = [], Body = ''inline'',
      ActiveBody = [], Params = [], Timeout = 0\<rparr>"

definition exampleEnv :: Environment where
  "exampleEnv =
     \<lparr>BaseURL = [], EnvHeaders = [], EnvCookies = [], Auth = Map.empty, Variables = []\<rparr>"

definition loginRecord :: RequestConfig where
  "loginRecord =
     \<lparr>Name = ''login'', Description = [], Method = ''POST'',
      URL = ''/v1/{{tenant}}/login?next={{missing}}'',
      Headers = [(''X-B'', ''3''), (''X-C'', []), (''x-a'', [])],
      Cookies = [(''sid'', ''b''), (''theme'', [])], Body = ''inline'',
      ActiveBody = [], Params = [], Timeout = 0\<rparr>"

definition stagingEnv :: Environment where
  "stagingEnv =
     \<lparr>BaseURL = ''https://{{host}}/'',
      EnvHeaders = [(''x-a'', ''1''), (''X-B'', ''2'')],
      EnvCookies = [(''sid'', ''a'')],
      Auth = [''type'' \<mapsto> ''oauth2'', ''token'' \<mapsto> ''t''],
      Variables = [(''host'', ''api.test''), (''tenant'', ''acme'')]\<rparr>"

definition exampleLib :: golib where
  "exampleLib =
     \<lparr>jsonMarshalRequest = (\<lambda>config. ''activeBody='' @ ActiveBody config),
      jsonUnmarshalRequest = (\<lambda>data.
         if data = ''login record'' then Some loginRecord
         else if prefix ''activeBody='' data then Some (exampleRecord\<lparr>ActiveBody := drop 11 data\<rparr>)
         else None),
      jsonMarshalEnvironment = (\<lambda>env. ''baseURL='' @ BaseURL env),
      jsonUnmarshalEnvironment = (\<lambda>data.
         if data = ''staging environment'' then Some stagingEnv
         else if prefix ''baseURL='' data then Some (exampleEnv\<lparr>BaseURL := drop 8 data\<rparr>)
         else None),
      newRequestRejects = (\<lambda>method url. False),
      basicAuth = (\<lambda>username password. username @ '':'' @ password)\<rparr>"

text \<open>
  Example workspaces, with the working directory at the root: a request in the directory
  layout with one variant; the same after the variant file was deleted by hand; a request
  whose flat record file lies next to a directory with a variant; a request whose
  record file does not parse; a workspace that already holds one environment and one
  request; a request with two variants; and a workspace with the two named documents.
\<close>

definition exampleCM :: ConfigManager where
  "exampleCM = \<lparr>requestsDir = [''requests''], environmentsDir = [''environments'']\<rparr>"

definition exampleFS :: filesystem where
  "exampleFS =
     [([''environments''], Dir),
      ([''environments'', ''dev.json''], File ''baseURL=http://localhost:3000/''),
      ([''requests''], Dir),
      ([''requests'', ''users''], Dir),
      ([''requests'', ''users'', ''post-user''], Dir),
      ([''requests'', ''users'', ''post-user'', ''request.json''], File ''activeBody=admin''),
      ([''requests'', ''users'', ''post-user'', ''admin.json''], File ''admin body'')]"

definition staleFS :: filesystem where
  "staleFS =
     [([''environments''], Dir),
      ([''environments'', ''dev.json''], File ''baseURL=http://localhost:3000/''),
      ([''requests''], Dir),
      ([''requests'', ''users''], Dir),
      ([''requests'', ''users'', ''post-user''], Dir),
      ([''requests'', ''users'', ''post-user'', ''request.json''], File ''activeBody=admin'')]"

definition mixedFS :: filesystem where
  "mixedFS =
     [([''requests''], Dir),
      ([''requests'', ''login.json''], File ''activeBody=admin''),
      ([''requests'', ''login''], Dir),
      ([''requests'', ''login'', ''admin.json''], File ''admin body'')]"

definition brokenFS :: filesystem where
  "brokenFS =
     [([''requests''], Dir),
      ([''requests'', ''login''], Dir),
      ([''requests'', ''login'', ''request.json''], File ''not json''),
      ([''requests'', ''login'', ''admin.json''], File ''admin body'')]"

definition seededFS :: filesystem where
  "seededFS =
     [([''environments''], Dir),
      ([''environments'', ''staging.json''], File ''baseURL=https://staging.example.com''),
      ([''requests''], Dir),
      ([''requests'', ''ping.json''], File ''activeBody='')]"

definition twoVariantsFS :: filesystem where
  "twoVariantsFS =
     [([''requests''], Dir),
      ([''requests'', ''users''], Dir),
      ([''requests'', ''users'', ''post-user''], Dir),
      ([''requests'', ''users'', ''post-user'', ''request.json''], File ''activeBody=admin''),
      ([''requests'', ''users'', ''post-user'', ''admin.json''], File ''admin body''),
      ([''requests'', ''users'', ''post-user'', ''guest.json''], File ''guest body'')]"

definition requestFS :: filesystem where
  "requestFS =
     [([''environments''], Dir),
      ([''environments'', ''staging.json''], File ''staging environment''),
      ([''requests''], Dir),
      ([''requests'', ''login.json''], File ''login record'')]"

section \<open>Lemmas about the file system\<close>

lemma osStat_Nil: "osStat fs [] = Inr Dir"
  by (simp add: osStat_def)

lemma osStat_snoc:
  "osStat fs (p @ [c]) =
     (case osStat fs p of
        Inl e \<Rightarrow> Inl e
      | Inr (File _) \<Rightarrow> Inl ENOTDIR
      | Inr Dir \<Rightarrow> (case map_of fs (p @ [c]) of None \<Rightarrow> Inl ENOENT | Some n \<Rightarrow> Inr n))"
  by (simp add: osStat_def split: sum.splits node.splits)

lemma osStat_parent:
  "osStat fs (p @ [c]) = Inr n \<Longrightarrow> osStat fs p = Inr Dir \<and> map_of fs (p @ [c]) = Some n"
  by (auto simp: osStat_snoc split: sum.splits node.splits option.splits)

lemma osStat_append_ok:
  "osStat fs (p @ r) = Inr n \<Longrightarrow> r \<noteq> [] \<Longrightarrow> osStat fs p = Inr Dir"
proof (induction r arbitrary: n rule: rev_induct)
  case Nil
  then show ?case by simp
next
  case (snoc c r)
  from snoc.prems(1) have par: "osStat fs (p @ r) = Inr Dir"
    using osStat_parent[of fs "p @ r" c n] by simp
  show ?case
  proof (cases "r = []")
    case True
    with par show ?thesis by simp
  next
    case False
    from snoc.IH[OF par False] show ?thesis .
  qed
qed

lemma osStat_prefix_ok:
  "prefix p q \<Longrightarrow> osStat fs q = Inr n \<Longrightarrow> \<exists>n'. osStat fs p = Inr n'"
proof -
  assume "prefix p q" and q: "osStat fs q = Inr n"
  then obtain r where r: "q = p @ r" by (auto simp: prefix_def)
  show ?thesis
  proof (cases "r = []")
    case True
    with r q show ?thesis by simp
  next
    case False
    from osStat_append_ok[OF q[unfolded r] False] show ?thesis by simp
  qed
qed

lemma osStat_below_absent:
  "isl (osStat fs p) \<Longrightarrow> prefix p q \<Longrightarrow> isl (osStat fs q)"
proof (rule ccontr)
  assume a: "isl (osStat fs p)" and pq: "prefix p q" and "\<not> isl (osStat fs q)"
  then obtain n where "osStat fs q = Inr n" by (cases "osStat fs q") auto
  from osStat_prefix_ok[OF pq this] a show False by auto
qed

lemma osStat_update_other:
  "\<not> prefix p q \<Longrightarrow> osStat (AList.update p n fs) q = osStat fs q"
proof (induction q rule: rev_induct)
  case Nil
  show ?case by (simp add: osStat_Nil)
next
  case (snoc c q)
  from snoc.prems have np: "\<not> prefix p q" and ne: "p \<noteq> q @ [c]"
    by (auto simp: prefix_def)
  from ne have "map_of (AList.update p n fs) (q @ [c]) = map_of fs (q @ [c])"
    by (simp add: update_conv')
  with snoc.IH[OF np] show ?case by (simp add: osStat_snoc split: sum.splits node.splits)
qed

lemma osStat_delete_other:
  "\<not> prefix p q \<Longrightarrow> osStat (AList.delete p fs) q = osStat fs q"
proof (induction q rule: rev_induct)
  case Nil
  show ?case by (simp add: osStat_Nil)
next
  case (snoc c q)
  from snoc.prems have np: "\<not> prefix p q" and ne: "p \<noteq> q @ [c]"
    by (auto simp: prefix_def)
  from ne have "map_of (AList.delete p fs) (q @ [c]) = map_of fs (q @ [c])"
    by (simp add: delete_conv')
  with snoc.IH[OF np] show ?case by (simp add: osStat_snoc split: sum.splits node.splits)
qed

lemma not_prefix_butlast: "p \<noteq> [] \<Longrightarrow> \<not> prefix p (butlast p)"
  by (cases p rule: rev_cases) (auto dest: prefix_length_le)

lemma osStat_update_same:
  assumes "p \<noteq> []" "osStat fs (butlast p) = Inr Dir"
  shows "osStat (AList.update p n fs) p = Inr n"
proof -
  from assms(1) obtain q c where p: "p = q @ [c]" by (cases p rule: rev_cases) auto
  have "osStat (AList.update p n fs) q = osStat fs q"
    using osStat_update_other[of p q n fs] not_prefix_butlast[OF assms(1)] p by simp
  with assms(2) p show ?thesis by (simp add: osStat_snoc update_conv')
qed

lemma osStat_delete_same:
  assumes "p \<noteq> []" "osStat fs (butlast p) = Inr Dir"
  shows "osStat (AList.delete p fs) p = Inl ENOENT"
proof -
  from assms(1) obtain q c where p: "p = q @ [c]" by (cases p rule: rev_cases) auto
  have "osStat (AList.delete p fs) q = osStat fs q"
    using osStat_delete_other[of p q fs] not_prefix_butlast[OF assms(1)] p by simp
  with assms(2) p show ?thesis by (simp add: osStat_snoc delete_conv')
qed

lemma osStat_update_absent:
  assumes "isl (osStat fs p)" "osStat fs q = Inr n"
  shows "osStat (AList.update p m fs) q = Inr n"
proof -
  have "\<not> prefix p q"
    using osStat_below_absent[OF assms(1), of q] assms(2) by auto
  then show ?thesis using assms(2) by (simp add: osStat_update_other)
qed

lemma osWriteFile_ok:
  assumes "osWriteFile fs p d = Inr fs'"
  shows "fs' = AList.update p (File d) fs \<and> p \<noteq> [] \<and> osStat fs (butlast p) = Inr Dir"
proof -
  have pne: "p \<noteq> []" using assms by (auto simp: osWriteFile_def osStat_Nil)
  then obtain q c where p: "p = q @ [c]" by (cases p rule: rev_cases) auto
  show ?thesis
  proof (cases "osStat fs p")
    case (Inl e)
    with assms show ?thesis by (auto simp: osWriteFile_def split: if_splits)
  next
    case (Inr n)
    then have "osStat fs q = Inr Dir" using osStat_parent[of fs q c n] p by simp
    with assms Inr p show ?thesis by (cases n) (auto simp: osWriteFile_def)
  qed
qed

lemma osWriteFile_same:
  "osWriteFile fs p d = Inr fs' \<Longrightarrow> osStat fs' p = Inr (File d)"
  using osWriteFile_ok[of fs p d fs'] by (simp add: osStat_update_same)

lemma osWriteFile_other:
  "osWriteFile fs p d = Inr fs' \<Longrightarrow> \<not> prefix p q \<Longrightarrow> osStat fs' q = osStat fs q"
  using osWriteFile_ok[of fs p d fs'] by (simp add: osStat_update_other)

lemma mkdirAllRev_preserves:
  "mkdirAllRev fs rp = Inr fs' \<Longrightarrow> osStat fs q = Inr n \<Longrightarrow> osStat fs' q = Inr n"
proof (induction rp arbitrary: fs')
  case Nil
  then show ?case by simp
next
  case (Cons c rp)
  show ?case
  proof (cases "statRev fs (c # rp)")
    case (Inr m)
    with Cons.prems show ?thesis by (cases m) auto
  next
    case (Inl e)
    with Cons.prems(1) obtain fs1 where m1: "mkdirAllRev fs rp = Inr fs1"
      and fs': "fs' = AList.update (rev (c # rp)) Dir fs1"
      by (auto split: sum.splits)
    from Inl have "isl (osStat fs (rev (c # rp)))" by (simp add: osStat_def)
    then have "\<not> prefix (rev (c # rp)) q"
      using osStat_below_absent[of fs "rev (c # rp)" q] Cons.prems(2) by auto
    with Cons.IH[OF m1 Cons.prems(2)] fs' show ?thesis
      by (simp add: osStat_update_other del: rev.simps)
  qed
qed

lemma osMkdirAll_preserves:
  "osMkdirAll fs p = Inr fs' \<Longrightarrow> osStat fs q = Inr n \<Longrightarrow> osStat fs' q = Inr n"
  unfolding osMkdirAll_def by (rule mkdirAllRev_preserves)
lemma osStat_absent_in_dir:
  "osStat fs p = Inr Dir \<Longrightarrow> isl (osStat fs (p @ [c])) \<Longrightarrow> osStat fs (p @ [c]) = Inl ENOENT"
  by (auto simp: osStat_snoc split: option.splits)

lemma osWriteFile_in_dir:
  assumes "osStat fs p = Inr Dir" "osStat fs (p @ [c]) \<noteq> Inr Dir"
  shows "osWriteFile fs (p @ [c]) d = Inr (AList.update (p @ [c]) (File d) fs)"
proof (cases "osStat fs (p @ [c])")
  case (Inl e)
  with osStat_absent_in_dir[OF assms(1), of c] have "e = ENOENT" by simp
  with Inl assms(1) show ?thesis by (simp add: osWriteFile_def)
next
  case (Inr n)
  with assms(2) show ?thesis by (cases n) (simp_all add: osWriteFile_def)
qed

lemma osRemove_ok:
  assumes "osRemove fs p = Inr fs1"
  shows "fs1 = AList.delete p fs \<and> p \<noteq> [] \<and> osStat fs (butlast p) = Inr Dir \<and> \<not> isl (osStat fs p)"
proof -
  from assms have pne: "p \<noteq> []"
    by (auto simp: osRemove_def osStat_Nil split: if_splits)
  then obtain q c where p: "p = q @ [c]" by (cases p rule: rev_cases) auto
  from assms obtain n where n: "osStat fs p = Inr n"
    by (cases "osStat fs p") (auto simp: osRemove_def)
  then have "osStat fs q = Inr Dir" using osStat_parent[of fs q c n] p by simp
  moreover from assms n have "fs1 = AList.delete p fs"
    by (cases n) (auto simp: osRemove_def split: if_splits)
  ultimately show ?thesis using pne n p by simp
qed

lemma osStat_below_file:
  "osStat fs p = Inr (File d) \<Longrightarrow> r \<noteq> [] \<Longrightarrow> osStat fs (p @ r) = Inl ENOTDIR"
proof (induction r rule: rev_induct)
  case Nil
  then show ?case by simp
next
  case (snoc c r)
  show ?case
  proof (cases "r = []")
    case True
    with snoc.prems(1) show ?thesis using osStat_snoc[of fs p c] by simp
  next
    case False
    from snoc.IH[OF snoc.prems(1) False] show ?thesis
      using osStat_snoc[of fs "p @ r" c] by simp
  qed
qed

lemma not_prefix_of_absent:
  "osStat fs p = Inr (File d) \<Longrightarrow> osStat fs q = Inl ENOENT \<Longrightarrow> \<not> prefix p q"
proof
  assume p: "osStat fs p = Inr (File d)" and q: "osStat fs q = Inl ENOENT" and "prefix p q"
  then obtain r where r: "q = p @ r" by (auto simp: prefix_def)
  show False
  proof (cases "r = []")
    case True
    with r p q show False by simp
  next
    case False
    from osStat_below_file[OF p False] r q show False by simp
  qed
qed

lemmas fs_eval = osStat_def osReadFile_def osWriteFile_def osRemove_def osMkdirAll_def hasEntries_def
  addExt_def exampleCM_def exampleLib_def exampleRecord_def exampleEnv_def

section \<open>Lemmas about string replacement\<close>

lemma replaceNE_no_occurrence:
  "\<not> sublist (o1 # os) s \<Longrightarrow> replaceNE s o1 os new = s"
  by (induction s o1 os new rule: replaceNE.induct) (auto simp: sublist_Cons_right)

lemma replaceNE_append:
  "(\<forall>x1 x2. x = x1 @ x2 \<and> x2 \<noteq> [] \<and> prefix (o1 # os) (x2 @ y) \<longrightarrow> prefix (o1 # os) x2) \<Longrightarrow>
   replaceNE (x @ y) o1 os new = replaceNE x o1 os new @ replaceNE y o1 os new"
proof (induction x o1 os new rule: replaceNE.induct)
  case (1 o1 os new)
  show ?case by simp
next
  case (2 c cs o1 os new)
  show ?case
  proof (cases "prefix (o1 # os) (c # cs)")
    case True
    then have len: "length os \<le> length cs"
      by (auto dest: prefix_length_le)
    from True have py: "prefix (o1 # os) ((c # cs) @ y)"
      by (metis prefix_append)
    have hyp: "\<forall>x1 x2. drop (length os) cs = x1 @ x2 \<and> x2 \<noteq> [] \<and>
                 prefix (o1 # os) (x2 @ y) \<longrightarrow> prefix (o1 # os) x2"
    proof (intro allI impI, elim conjE)
      fix x1 x2
      assume d: "drop (length os) cs = x1 @ x2" and "x2 \<noteq> []" and "prefix (o1 # os) (x2 @ y)"
      have "c # cs = (c # take (length os) cs @ x1) @ x2"
        using d by (metis append.assoc append_Cons append_take_drop_id)
      then show "prefix (o1 # os) x2"
        using "2.prems" \<open>x2 \<noteq> []\<close> \<open>prefix (o1 # os) (x2 @ y)\<close> by blast
    qed
    have e1: "replaceNE ((c # cs) @ y) o1 os new = new @ replaceNE (drop (length os) cs @ y) o1 os new"
      using py len by simp
    have e2: "replaceNE (drop (length os) cs @ y) o1 os new =
               replaceNE (drop (length os) cs) o1 os new @ replaceNE y o1 os new"
      by (rule "2.IH"(1)[OF True hyp])
    have e3: "replaceNE (c # cs) o1 os new = new @ replaceNE (drop (length os) cs) o1 os new"
      using True by simp
    show ?thesis unfolding e1 e2 e3 by simp
  next
    case False
    have npy: "\<not> prefix (o1 # os) ((c # cs) @ y)"
      using "2.prems" False by (metis append_Nil list.distinct(1))
    have hyp: "\<forall>x1 x2. cs = x1 @ x2 \<and> x2 \<noteq> [] \<and>
                 prefix (o1 # os) (x2 @ y) \<longrightarrow> prefix (o1 # os) x2"
    proof (intro allI impI, elim conjE)
      fix x1 x2
      assume d: "cs = x1 @ x2" and "x2 \<noteq> []" and "prefix (o1 # os) (x2 @ y)"
      have "c # cs = (c # x1) @ x2" using d by simp
      then show "prefix (o1 # os) x2"
        using "2.prems" \<open>x2 \<noteq> []\<close> \<open>prefix (o1 # os) (x2 @ y)\<close> by blast
    qed
    have e1: "replaceNE ((c # cs) @ y) o1 os new = c # replaceNE (cs @ y) o1 os new"
      using npy by (simp del: prefix_code)
    have e2: "replaceNE (cs @ y) o1 os new = replaceNE cs o1 os new @ replaceNE y o1 os new"
      by (rule "2.IH"(2)[OF False hyp])
    have e3: "replaceNE (c # cs) o1 os new = c # replaceNE cs o1 os new"
      using False by (simp del: prefix_code)
    show ?thesis unfolding e1 e2 e3 by simp
  qed
qed

lemma noBrace_suffix_hd:
  "noBrace k \<Longrightarrow> xs @ ys = k @ ''}}'' \<Longrightarrow> ys \<noteq> [] \<Longrightarrow> hd ys \<noteq> CHR ''{''"
proof -
  assume nb: "noBrace k" and eq: "xs @ ys = k @ ''}}''" and ne: "ys \<noteq> []"
  from ne have "hd ys \<in> set ys" by simp
  then have "hd ys \<in> set (k @ ''}}'')" using eq by (metis Un_iff set_append)
  then show ?thesis using nb by (auto simp: noBrace_def)
qed

lemma prefix_placeholder_hd:
  "prefix (placeholder k) s \<Longrightarrow> s \<noteq> [] \<and> hd s = CHR ''{''"
  by (auto simp: placeholder_def prefix_def)

lemma noBrace_key_eq:
  "noBrace k \<Longrightarrow> noBrace m \<Longrightarrow> prefix (k @ ''}}'') (m @ ''}}'' @ b) \<Longrightarrow> k = m"
proof (induction k arbitrary: m)
  case Nil
  then show ?case by (cases m) (auto simp: noBrace_def)
next
  case (Cons c k)
  then show ?case by (cases m) (auto simp: noBrace_def)
qed

lemma placeholder_Cons: "placeholder k = CHR ''{'' # CHR ''{'' # k @ ''}}''"
  by (simp add: placeholder_def)

lemma replaceAll_placeholder:
  "replaceAll s (placeholder k) v = replaceNE s CHR ''{'' (CHR ''{'' # k @ ''}}'') v"
  by (simp add: replaceAll_def placeholder_Cons)

lemma occurrence_inside_left:
  assumes nb: "noBrace k" and ne: "a2 \<noteq> []"
    and pre: "prefix (placeholder k) (a2 @ CHR ''{'' # CHR ''{'' # r)"
  shows "prefix (placeholder k) a2"
proof (rule ccontr)
  assume np: "\<not> prefix (placeholder k) a2"
  from pre np obtain us where P: "placeholder k = a2 @ us" and pu: "prefix us (CHR ''{'' # CHR ''{'' # r)"
    by (auto simp: prefix_append)
  from np P have usne: "us \<noteq> []" by auto
  from pu usne have hdus: "hd us = CHR ''{''" by (cases us) auto
  from ne obtain a2' where a2: "a2 = CHR ''{'' # a2'"
    using P by (cases a2) (auto simp: placeholder_Cons)
  with P have eq: "a2' @ us = CHR ''{'' # k @ ''}}''" by (simp add: placeholder_Cons)
  show False
  proof (cases a2')
    case Nil
    with eq have us: "us = CHR ''{'' # k @ ''}}''" by simp
    with pu have "prefix (k @ ''}}'') (CHR ''{'' # r)" by simp
    then have "hd (k @ ''}}'') = CHR ''{''" by (cases k) auto
    moreover have "hd (k @ ''}}'') \<noteq> CHR ''{''"
      using noBrace_suffix_hd[OF nb, of "[]" "k @ ''}}''"] by simp
    ultimately show False by simp
  next
    case (Cons c a2'')
    with eq have "a2'' @ us = k @ ''}}''" by simp
    from noBrace_suffix_hd[OF nb this usne] hdus show False by simp
  qed
qed

lemma occurrence_not_in_other:
  assumes nbk: "noBrace k" and nbm: "noBrace m" and neq: "k \<noteq> m"
    and M: "placeholder m = m1 @ m2" and ne: "m2 \<noteq> []"
  shows "\<not> prefix (placeholder k) (m2 @ b)"
proof
  assume pre: "prefix (placeholder k) (m2 @ b)"
  from prefix_placeholder_hd[OF pre] ne have hd2: "hd m2 = CHR ''{''" by simp
  show False
  proof (cases m1)
    case Nil
    with M have "m2 = placeholder m" by simp
    with pre have "prefix (k @ ''}}'') (m @ ''}}'' @ b)" by (simp add: placeholder_Cons)
    from noBrace_key_eq[OF nbk nbm this] neq show False by simp
  next
    case (Cons c m1')
    with M have c: "c = CHR ''{''" and eq1: "m1' @ m2 = CHR ''{'' # m @ ''}}''"
      by (auto simp add: placeholder_Cons)
    show False
    proof (cases m1')
      case Nil
      with eq1 have m2: "m2 = CHR ''{'' # m @ ''}}''" by simp
      with pre have "prefix (CHR ''{'' # k @ ''}}'') ((m @ ''}}'') @ b)" by (simp add: placeholder_Cons)
      then have "hd (m @ ''}}'') = CHR ''{''" by (cases m) auto
      moreover have "hd (m @ ''}}'') \<noteq> CHR ''{''"
        using noBrace_suffix_hd[OF nbm, of "[]" "m @ ''}}''"] by simp
      ultimately show False by simp
    next
      case (Cons c' m1'')
      with eq1 have "m1'' @ m2 = m @ ''}}''" by simp
      from noBrace_suffix_hd[OF nbm this ne] hd2 show False by simp
    qed
  qed
qed

lemma placeholder_not_sublist:
  assumes "noBrace k" "noBrace m" "k \<noteq> m"
  shows "\<not> sublist (placeholder k) (placeholder m)"
proof
  assume "sublist (placeholder k) (placeholder m)"
  then obtain ps ss where eq: "placeholder m = ps @ (placeholder k @ ss)"
    by (auto simp: sublist_def)
  have "placeholder k @ ss \<noteq> []" by (simp add: placeholder_Cons)
  from occurrence_not_in_other[OF assms eq this, of "[]"] show False by simp
qed

lemma replaceAll_keeps_other:
  assumes nbk: "noBrace k" and nbm: "noBrace m" and neq: "k \<noteq> m"
  shows "replaceAll (a @ placeholder m @ b) (placeholder k) v =
         replaceAll a (placeholder k) v @ placeholder m @ replaceAll b (placeholder k) v"
proof -
  let ?R = "\<lambda>s. replaceNE s CHR ''{'' (CHR ''{'' # k @ ''}}'') v"
  have P: "CHR ''{'' # CHR ''{'' # k @ ''}}'' = placeholder k" by (simp add: placeholder_Cons)
  have "?R (a @ (placeholder m @ b)) = ?R a @ ?R (placeholder m @ b)"
  proof (rule replaceNE_append, intro allI impI, elim conjE)
    fix x1 x2
    assume "a = x1 @ x2" "x2 \<noteq> []"
      and "prefix (CHR ''{'' # CHR ''{'' # k @ ''}}'') (x2 @ placeholder m @ b)"
    then show "prefix (CHR ''{'' # CHR ''{'' # k @ ''}}'') x2"
      using occurrence_inside_left[OF nbk, of x2 "m @ ''}}'' @ b"]
      unfolding P by (simp add: placeholder_Cons[of m])
  qed
  moreover have "?R (placeholder m @ b) = ?R (placeholder m) @ ?R b"
  proof (rule replaceNE_append, intro allI impI, elim conjE)
    fix x1 x2
    assume "placeholder m = x1 @ x2" "x2 \<noteq> []"
      and "prefix (CHR ''{'' # CHR ''{'' # k @ ''}}'') (x2 @ b)"
    then show "prefix (CHR ''{'' # CHR ''{'' # k @ ''}}'') x2"
      using occurrence_not_in_other[OF nbk nbm neq, of x1 x2 b] unfolding P by simp
  qed
  moreover have "?R (placeholder m) = placeholder m"
    using placeholder_not_sublist[OF nbk nbm neq] unfolding P[symmetric]
    by (rule replaceNE_no_occurrence)
  ultimately show ?thesis by (simp add: replaceAll_placeholder)
qed

lemma replaceAll_replaces_each:
  assumes nbk: "noBrace k"
  shows "replaceAll (a @ placeholder k @ b) (placeholder k) v =
         replaceAll a (placeholder k) v @ v @ replaceAll b (placeholder k) v"
proof -
  let ?R = "\<lambda>s. replaceNE s CHR ''{'' (CHR ''{'' # k @ ''}}'') v"
  have P: "CHR ''{'' # CHR ''{'' # k @ ''}}'' = placeholder k" by (simp add: placeholder_Cons)
  have "?R (a @ (placeholder k @ b)) = ?R a @ ?R (placeholder k @ b)"
  proof (rule replaceNE_append, intro allI impI, elim conjE)
    fix x1 x2
    assume "a = x1 @ x2" "x2 \<noteq> []"
      and "prefix (CHR ''{'' # CHR ''{'' # k @ ''}}'') (x2 @ placeholder k @ b)"
    then show "prefix (CHR ''{'' # CHR ''{'' # k @ ''}}'') x2"
      using occurrence_inside_left[OF nbk, of x2 "k @ ''}}'' @ b"]
      unfolding P by (simp add: placeholder_Cons[of k])
  qed
  moreover have "?R (placeholder k @ b) = v @ ?R b"
    by (simp add: placeholder_Cons)
  ultimately show ?thesis by (simp add: replaceAll_placeholder)
qed

lemma substituteVariables_keeps_other:
  assumes "\<forall>(k, v) \<in> set vars. noBrace k \<and> k \<noteq> m" and "noBrace m"
  shows "substituteVariables vars (a @ placeholder m @ b) =
         substituteVariables vars a @ placeholder m @ substituteVariables vars b"
  using assms(1)
proof (induction vars arbitrary: a b)
  case Nil
  show ?case by (simp add: substituteVariables_def)
next
  case (Cons kv vars)
  obtain k v where kv: "kv = (k, v)" by (cases kv)
  with Cons.prems have nbk: "noBrace k" and neq: "k \<noteq> m"
    and rest: "\<forall>(k, v) \<in> set vars. noBrace k \<and> k \<noteq> m" by auto
  have step: "\<And>u. substituteVariables (kv # vars) u = substituteVariables vars (replaceAll u (placeholder k) v)"
    by (simp add: substituteVariables_def kv placeholder_def)
  show ?case
    unfolding step replaceAll_keeps_other[OF nbk assms(2) neq]
    by (rule Cons.IH[OF rest])
qed

section \<open>Lemmas about headers and authentication\<close>

lemma applyHeaders_Nil: "applyHeaders [] r = r"
  by (simp add: applyHeaders_def)

lemma applyHeaders_Cons:
  "applyHeaders ((k, v) # hs) r = applyHeaders hs (if v \<noteq> [] then headerSet k v r else r)"
  by (simp add: applyHeaders_def)

lemma canonicalEntries_Cons:
  "canonicalEntries ((k, v) # hs) = (canonicalMIMEHeaderKey k, v) # canonicalEntries hs"
  by (simp add: canonicalEntries_def)

lemma applyHeaders_lookup:
  "distinct (map fst (canonicalEntries hs)) \<Longrightarrow>
   reqHeader (applyHeaders hs r) ck =
     (case map_of (canonicalEntries hs) ck of
        Some v \<Rightarrow> if v \<noteq> [] then Some v else reqHeader r ck
      | None \<Rightarrow> reqHeader r ck)"
proof (induction hs arbitrary: r)
  case Nil
  show ?case by (simp add: applyHeaders_Nil canonicalEntries_def)
next
  case (Cons h hs)
  obtain k v where h: "h = (k, v)" by (cases h)
  from Cons.prems h have d: "distinct (map fst (canonicalEntries hs))"
    and nk: "canonicalMIMEHeaderKey k \<notin> fst ` set (canonicalEntries hs)"
    by (simp_all add: canonicalEntries_Cons)
  from nk have none: "map_of (canonicalEntries hs) (canonicalMIMEHeaderKey k) = None"
    by (simp add: map_of_eq_None_iff)
  show ?case
    using Cons.IH[OF d] none
    by (simp add: h applyHeaders_Cons headerSet_def canonicalEntries_Cons split: option.splits)
qed

lemma applyAuth_ignored:
  assumes "authIgnored auth"
  shows "applyAuth L auth req = req"
proof (cases "auth ''type''")
  case None
  then show ?thesis by (simp add: applyAuth_def)
next
  case (Some t)
  with assms consider "t = []" | "t \<noteq> ''bearer''" "t \<noteq> ''basic''" "t \<noteq> ''api-key''"
    | "t = ''bearer''" "auth ''token'' = None \<or> auth ''token'' = Some []"
    | "t = ''api-key''" "auth ''key'' = None \<or> auth ''key'' = Some [] \<or>
                               auth ''header'' = None \<or> auth ''header'' = Some []"
    unfolding authIgnored_def by (simp only: option.case insert_iff empty_iff) blast
  then show ?thesis
  proof cases
    case 1
    with Some show ?thesis by (simp add: applyAuth_def)
  next
    case 2
    with Some show ?thesis by (simp add: applyAuth_def)
  next
    case 3
    with Some show ?thesis by (auto simp add: applyAuth_def)
  next
    case 4
    with Some show ?thesis by (auto simp add: applyAuth_def split: option.splits)
  qed
qed

lemma map_of_sentEntries:
  "distinct (map fst hs) \<Longrightarrow>
   map_of (sentEntries hs) k =
     (case map_of hs k of Some v \<Rightarrow> if v \<noteq> [] then Some v else None | None \<Rightarrow> None)"
proof (induction hs arbitrary: k)
  case Nil
  show ?case by (simp add: sentEntries_def)
next
  case (Cons h hs)
  obtain k' v' where h: "h = (k', v')" by (cases h)
  from Cons.prems h have d: "distinct (map fst hs)" and nk: "k' \<notin> fst ` set hs" by simp_all
  from nk have none: "map_of hs k' = None" by (simp add: map_of_eq_None_iff)
  have s: "sentEntries ((k', v') # hs) = (if v' \<noteq> [] then (k', v') # sentEntries hs else sentEntries hs)"
    by (simp add: sentEntries_def)
  show ?case using Cons.IH[OF d, of k] Cons.IH[OF d, of k'] none by (simp add: s h)
qed

lemma distinct_sentEntries: "distinct (map fst hs) \<Longrightarrow> distinct (map fst (sentEntries hs))"
  by (simp add: sentEntries_def distinct_map_filter)

lemma reqHeader_newRequest: "reqHeader (newRequest m u b) = Map.empty"
  by (simp add: newRequest_def)

lemma canonical_Cookie: "canonicalMIMEHeaderKey ''Cookie'' = ''Cookie''"
  by (simp add: canonicalMIMEHeaderKey_def validHeaderFieldByte_def Let_def)

lemma canonical_Authorization: "canonicalMIMEHeaderKey ''Authorization'' = ''Authorization''"
  by (simp add: canonicalMIMEHeaderKey_def validHeaderFieldByte_def Let_def)

lemma cookiePair_nonempty: "cookiePair c \<noteq> []"
  by (simp add: cookiePair_def)

lemma cookieLine_Cons:
  "cookieLine (c # cs) = (if cs = [] then cookiePair c else cookiePair c @ ''; '' @ cookieLine cs)"
  by (cases cs) simp_all

lemma cookieLine_nonempty: "cs \<noteq> [] \<Longrightarrow> cookieLine cs \<noteq> []"
  by (cases cs) (simp_all add: cookieLine_Cons cookiePair_nonempty)

lemma applyCookies_Nil: "applyCookies [] r = r"
  by (simp add: applyCookies_def)

lemma applyCookies_Cons:
  "applyCookies ((n, v) # cs) r = applyCookies cs (if v \<noteq> [] then addCookie n v r else r)"
  by (simp add: applyCookies_def)

lemma applyCookies_twice: "applyCookies rc (applyCookies ec r) = applyCookies (ec @ rc) r"
  by (simp add: applyCookies_def)

lemma sentEntries_append: "sentEntries (xs @ ys) = sentEntries xs @ sentEntries ys"
  by (simp add: sentEntries_def)

lemma sentEntries_Cons:
  "sentEntries ((n, v) # cs) = (if v \<noteq> [] then (n, v) # sentEntries cs else sentEntries cs)"
  by (simp add: sentEntries_def)

lemma addCookie_header:
  "reqHeader (addCookie n v r) =
     (reqHeader r)(''Cookie'' \<mapsto>
        (if headerGet r ''Cookie'' = [] then cookiePair (n, v)
         else headerGet r ''Cookie'' @ ''; '' @ cookiePair (n, v)))"
  by (simp add: addCookie_def headerSet_def canonical_Cookie cookiePair_def Let_def)

lemma addCookie_get:
  "headerGet (addCookie n v r) ''Cookie'' =
     (if headerGet r ''Cookie'' = [] then cookiePair (n, v)
      else headerGet r ''Cookie'' @ ''; '' @ cookiePair (n, v))"
  by (simp add: headerGet_def addCookie_header canonical_Cookie)

lemma applyCookies_header:
  "reqHeader (applyCookies cs r) =
     (if sentEntries cs = [] then reqHeader r
      else (reqHeader r)(''Cookie'' \<mapsto>
             (if headerGet r ''Cookie'' = [] then cookieLine (sentEntries cs)
              else headerGet r ''Cookie'' @ ''; '' @ cookieLine (sentEntries cs))))"
proof (induction cs arbitrary: r)
  case Nil
  show ?case by (simp add: applyCookies_Nil sentEntries_def)
next
  case (Cons c cs)
  obtain n v where c: "c = (n, v)" by (cases c)
  show ?case
  proof (cases "v = []")
    case True
    have s: "sentEntries ((n, v) # cs) = sentEntries cs" using True by (simp add: sentEntries_Cons)
    have a: "applyCookies ((n, v) # cs) r = applyCookies cs r" using True by (simp add: applyCookies_Cons)
    show ?thesis unfolding c s a by (rule Cons.IH)
  next
    case False
    have ne: "headerGet (addCookie n v r) ''Cookie'' \<noteq> []"
      by (simp add: addCookie_get cookiePair_nonempty)
    have s: "sentEntries ((n, v) # cs) = (n, v) # sentEntries cs"
      using False by (simp add: sentEntries_Cons)
    have a: "applyCookies ((n, v) # cs) r = applyCookies cs (addCookie n v r)"
      using False by (simp add: applyCookies_Cons)
    show ?thesis
      unfolding c s a Cons.IH using ne
      by (simp add: addCookie_header addCookie_get cookieLine_Cons fun_upd_def cong: if_cong)
  qed
qed

lemma applyCookies_other:
  "ck \<noteq> ''Cookie'' \<Longrightarrow> reqHeader (applyCookies cs r) ck = reqHeader r ck"
  by (simp add: applyCookies_header)

lemma applyAuth_other:
  "ck \<notin> authKeys auth \<Longrightarrow> reqHeader (applyAuth L auth r) ck = reqHeader r ck"
  by (auto simp: applyAuth_def authKeys_def headerSet_def canonical_Authorization split: option.splits)

lemma headerGet_newRequest: "headerGet (newRequest m u b) key = []"
  by (simp add: headerGet_def newRequest_def)

lemma merged_headers:
  assumes "distinct (map fst (canonicalEntries eh))" "distinct (map fst (canonicalEntries rh))"
  shows "reqHeader (applyHeaders rh (applyHeaders eh (newRequest m u b))) =
     map_of (sentEntries (canonicalEntries eh)) ++ map_of (sentEntries (canonicalEntries rh))"
proof (rule ext)
  fix ck
  show "reqHeader (applyHeaders rh (applyHeaders eh (newRequest m u b))) ck =
        (map_of (sentEntries (canonicalEntries eh)) ++ map_of (sentEntries (canonicalEntries rh))) ck"
    by (simp add: applyHeaders_lookup[OF assms(2)] applyHeaders_lookup[OF assms(1)] reqHeader_newRequest
          map_add_def map_of_sentEntries[OF assms(1)] map_of_sentEntries[OF assms(2)] split: option.splits)
qed

section \<open>Lemmas about the store and the request body\<close>

lemma reqBody_applyHeaders: "reqBody (applyHeaders hs r) = reqBody r"
  by (induction hs arbitrary: r) (auto simp: applyHeaders_def headerSet_def)

lemma reqBody_applyCookies: "reqBody (applyCookies cs r) = reqBody r"
  by (induction cs arbitrary: r) (auto simp: applyCookies_def addCookie_def headerSet_def Let_def)

lemma reqBody_applyAuth: "reqBody (applyAuth L auth r) = reqBody r"
  by (simp add: applyAuth_def headerSet_def split: option.splits)

lemma reqBody_prepareRequest:
  "reqBody (prepareRequest L config env b) = (if b \<noteq> [] then Some b else None)"
  by (simp add: prepareRequest_def reqBody_applyAuth reqBody_applyCookies reqBody_applyHeaders newRequest_def)

lemma selectBody_active:
  assumes "ActiveBody config \<noteq> []"
  shows "selectBody cm fs requestPath config =
     (case osReadFile fs (requestsDir cm @ requestPath @ [ActiveBody config @ ''.json'']) of
        Inr bodyData \<Rightarrow> bodyData | Inl e \<Rightarrow> Body config)"
proof (cases "osStat fs (requestsDir cm @ requestPath)")
  case (Inr n)
  with assms show ?thesis by (simp add: selectBody_def)
next
  case (Inl e)
  have "isl (osStat fs ((requestsDir cm @ requestPath) @ [ActiveBody config @ ''.json'']))"
    using Inl osStat_snoc[of fs "requestsDir cm @ requestPath" "ActiveBody config @ ''.json''"] by simp
  then have "isl (osReadFile fs (requestsDir cm @ requestPath @ [ActiveBody config @ ''.json'']))"
    by (auto simp: osReadFile_def split: sum.splits)
  with assms Inl show ?thesis by (auto simp: selectBody_def split: sum.splits)
qed

lemma SaveRequest_error:
  "fst (SaveRequest L cm fs path config) \<noteq> Some (BodyFileDoesNotExistIn b p)"
  by (auto simp: SaveRequest_def writeConfigFile_def Let_def split: sum.splits)

text \<open>
  In the directory layout alone (no flat record file next to the directory), removing the
  active variant does clear the record that is read back, for a codec that reads back what
  it wrote.
\<close>

lemma remove_body_directory_layout:
  assumes flat: "osStat fs (requestsDir cm @ addExt requestPath ''.json'') = Inl ENOENT"
    and var: "osStat fs (requestsDir cm @ requestPath @ [bodyName @ ''.json'']) = Inr (File d)"
    and ne: "bodyName \<noteq> ''request''"
    and lr: "LoadRequest L cm fs requestPath = Inr config"
    and act: "ActiveBody config = bodyName"
    and rt: "jsonUnmarshalRequest L (jsonMarshalRequest L (config\<lparr>ActiveBody := []\<rparr>)) =
             Some (config\<lparr>ActiveBody := []\<rparr>)"
  shows "\<exists>fs'. RemoveBody L cm fs requestPath bodyName = (None, fs') \<and>
               LoadRequest L cm fs' requestPath = Inr (config\<lparr>ActiveBody := []\<rparr>) \<and>
               osStat fs' (requestsDir cm @ requestPath @ [bodyName @ ''.json'']) = Inl ENOENT"
proof -
  let ?dir = "requestsDir cm @ requestPath"
  let ?flat = "requestsDir cm @ addExt requestPath ''.json''"
  let ?body = "?dir @ [bodyName @ ''.json'']"
  let ?rec = "?dir @ [''request.json'']"
  let ?fs1 = "AList.delete ?body fs"
  let ?data = "jsonMarshalRequest L (config\<lparr>ActiveBody := []\<rparr>)"
  let ?fs2 = "AList.update ?rec (File ?data) ?fs1"
  from var have var': "osStat fs ?body = Inr (File d)" by simp
  from osStat_parent[OF var'] have dir: "osStat fs ?dir = Inr Dir" by simp
  have rm: "osRemove fs ?body = Inr ?fs1" using var' by (simp add: osRemove_def)
  have nbf: "\<not> prefix ?body ?flat" using not_prefix_of_absent[OF var' flat] .
  have nbr: "\<not> prefix ?body ?rec" using ne by (auto simp: prefix_def)
  have nbd: "\<not> prefix ?body ?dir" by (auto simp: prefix_def)
  have flat1: "osStat ?fs1 ?flat = Inl ENOENT" using osStat_delete_other[OF nbf] flat by simp
  have rec1: "osStat ?fs1 ?rec = osStat fs ?rec" using osStat_delete_other[OF nbr] .
  have dir1: "osStat ?fs1 ?dir = Inr Dir" using osStat_delete_other[OF nbd] dir by simp
  have bl: "butlast ?body = ?dir" by (simp add: butlast_append)
  have body1: "osStat ?fs1 ?body = Inl ENOENT"
    using osStat_delete_same[of ?body fs] dir unfolding bl by simp
  have lr1: "LoadRequest L cm ?fs1 requestPath = Inr config"
    using lr flat flat1 rec1 by (simp add: LoadRequest_def osReadFile_def)
  from lr1 flat1 obtain s where recf: "osStat ?fs1 ?rec = Inr (File s)"
    by (auto simp: LoadRequest_def osReadFile_def split: sum.splits node.splits)
  then have nd: "osStat ?fs1 (?dir @ [''request.json'']) \<noteq> Inr Dir" by simp
  have w: "osWriteFile ?fs1 ?rec ?data = Inr ?fs2"
    using osWriteFile_in_dir[OF dir1 nd] by simp
  have res: "RemoveBody L cm fs requestPath bodyName = (None, ?fs2)"
    using var rm lr1 act dir1 w by (simp add: RemoveBody_def SaveRequest_def writeConfigFile_def)
  have nrf: "\<not> prefix ?rec ?flat"
    using not_prefix_of_absent[of ?fs1 ?rec s ?flat] recf flat1 by simp
  have flat2: "osStat ?fs2 ?flat = Inl ENOENT" using osWriteFile_other[OF w nrf] flat1 by simp
  have rec2: "osStat ?fs2 ?rec = Inr (File ?data)" using osWriteFile_same[OF w] by simp
  have lr2: "LoadRequest L cm ?fs2 requestPath = Inr (config\<lparr>ActiveBody := []\<rparr>)"
    using flat2 rec2 rt by (simp add: LoadRequest_def osReadFile_def)
  have nrb: "\<not> prefix ?rec ?body" using ne by (auto simp: prefix_def)
  have body2: "osStat ?fs2 ?body = Inl ENOENT" using osWriteFile_other[OF w nrb] body1 by simp
  from res lr2 body2 show ?thesis by auto
qed

lemma twoVariantsFS_load:
  "LoadRequest exampleLib exampleCM twoVariantsFS [''users'', ''post-user''] =
     Inr (exampleRecord\<lparr>ActiveBody := ''admin''\<rparr>)"
  by (simp add: fs_eval twoVariantsFS_def LoadRequest_def)

text \<open>
  In the directory layout alone (no flat record file next to the directory), activating a
  variant that exists is read back, for a codec that reads back what it wrote.
\<close>

lemma set_active_body_directory_layout:
  assumes lr: "LoadRequest L cm fs requestPath = Inr config"
    and var: "osStat fs (requestsDir cm @ requestPath @ [bodyName @ ''.json'']) \<noteq> Inl ENOENT"
    and flat: "osStat fs (requestsDir cm @ addExt requestPath ''.json'') = Inl ENOENT"
    and rt: "jsonUnmarshalRequest L (jsonMarshalRequest L (config\<lparr>ActiveBody := bodyName\<rparr>)) =
             Some (config\<lparr>ActiveBody := bodyName\<rparr>)"
  shows "\<exists>fs'. SetActiveBody L cm fs requestPath bodyName = (None, fs') \<and>
               LoadRequest L cm fs' requestPath = Inr (config\<lparr>ActiveBody := bodyName\<rparr>) \<and>
               (\<forall>q. \<not> prefix (requestsDir cm @ requestPath @ [''request.json'']) q \<longrightarrow>
                    osStat fs' q = osStat fs q)"
proof -
  let ?dir = "requestsDir cm @ requestPath"
  let ?flat = "requestsDir cm @ addExt requestPath ''.json''"
  let ?rec = "?dir @ [''request.json'']"
  let ?data = "jsonMarshalRequest L (config\<lparr>ActiveBody := bodyName\<rparr>)"
  let ?fs2 = "AList.update ?rec (File ?data) fs"
  from lr flat obtain s where recf: "osStat fs ?rec = Inr (File s)"
    by (auto simp: LoadRequest_def osReadFile_def split: sum.splits node.splits)
  from osStat_parent[OF recf] have dir: "osStat fs ?dir = Inr Dir" by simp
  from recf have nd: "osStat fs (?dir @ [''request.json'']) \<noteq> Inr Dir" by simp
  have w: "osWriteFile fs ?rec ?data = Inr ?fs2"
    using osWriteFile_in_dir[OF dir nd] by simp
  have res: "SetActiveBody L cm fs requestPath bodyName = (None, ?fs2)"
    using lr var dir w by (simp add: SetActiveBody_def SaveRequest_def writeConfigFile_def)
  have nrf: "\<not> prefix ?rec ?flat"
    using not_prefix_of_absent[of fs ?rec s ?flat] recf flat by simp
  have flat2: "osStat ?fs2 ?flat = Inl ENOENT" using osWriteFile_other[OF w nrf] flat by simp
  have rec2: "osStat ?fs2 ?rec = Inr (File ?data)" using osWriteFile_same[OF w] by simp
  have lr2: "LoadRequest L cm ?fs2 requestPath = Inr (config\<lparr>ActiveBody := bodyName\<rparr>)"
    using flat2 rec2 rt by (simp add: LoadRequest_def osReadFile_def)
  have fr: "\<forall>q. \<not> prefix ?rec q \<longrightarrow> osStat ?fs2 q = osStat fs q"
    using osWriteFile_other[OF w] by simp
  from res lr2 fr show ?thesis by simp
qed

lemma exampleFS_load:
  "LoadRequest exampleLib exampleCM exampleFS [''users'', ''post-user''] =
     Inr \<lparr>Name = ''example'', Description = [], Method = ''POST'', URL = ''/v1/x'',
          Headers = [], Cookies = [], Body = ''inline'',
          ActiveBody = ''admin'', Params = [], Timeout = 0\<rparr>"
  by (simp add: fs_eval exampleFS_def LoadRequest_def)

lemma staleFS_load:
  "LoadRequest exampleLib exampleCM staleFS [''users'', ''post-user''] =
     Inr \<lparr>Name = ''example'', Description = [], Method = ''POST'', URL = ''/v1/x'',
          Headers = [], Cookies = [], Body = ''inline'',
          ActiveBody = ''admin'', Params = [], Timeout = 0\<rparr>"
  by (simp add: fs_eval staleFS_def LoadRequest_def)

lemma staleFS_env:
  "LoadEnvironment exampleLib exampleCM staleFS ''dev'' =
     Inr \<lparr>BaseURL = ''http://localhost:3000/'', EnvHeaders = [], EnvCookies = [],
          Auth = Map.empty, Variables = []\<rparr>"
  by (simp add: fs_eval staleFS_def LoadEnvironment_def)

section \<open>Lemmas about the walk of the request root\<close>

lemma listed_addRequest:
  "listed (addRequest m rel) g =
     listed m g \<union> (if rel \<noteq> [] \<and> hasSuffix (last rel) ''.json'' \<and> dirOf rel = g then {relPathOf rel} else {})"
  by (auto simp: listed_def addRequest_def split: option.splits)

lemma listed_foldl:
  "listed (foldl addRequest m rels) g =
     listed m g \<union> {relPathOf rel | rel. rel \<in> set rels \<and> rel \<noteq> [] \<and> hasSuffix (last rel) ''.json'' \<and> dirOf rel = g}"
proof (induction rels arbitrary: m)
  case Nil
  show ?case by simp
next
  case (Cons r rels)
  show ?case
    unfolding foldl_Cons Cons.IH listed_addRequest by auto
qed

lemma isFile_iff: "isFile fs q = (\<exists>d. osStat fs q = Inr (File d))"
  by (auto simp: isFile_def split: sum.splits node.splits)

lemma isFile_key: "isFile fs q \<Longrightarrow> q \<in> fst ` set fs"
proof -
  assume "isFile fs q"
  then obtain d where d: "osStat fs q = Inr (File d)" by (auto simp: isFile_iff)
  then have "q \<noteq> []" by (auto simp: osStat_Nil)
  then obtain p c where q: "q = p @ [c]" by (cases q rule: rev_cases) auto
  from d q have "map_of fs q = Some (File d)" using osStat_parent[of fs p c "File d"] by simp
  then show ?thesis by (metis map_of_SomeD fst_conv image_eqI)
qed

lemma set_walkFiles: "set (walkFiles fs root) = {q. strict_prefix root q \<and> isFile fs q}"
  using isFile_key[of fs] by (auto simp: walkFiles_def)

lemma walked_relative:
  "set (map (drop (length root)) (walkFiles fs root)) = {rel. rel \<noteq> [] \<and> isFile fs (root @ rel)}"
proof -
  have "drop (length root) ` {q. strict_prefix root q \<and> isFile fs q} = {rel. rel \<noteq> [] \<and> isFile fs (root @ rel)}"
  proof (intro set_eqI iffI)
    fix rel
    assume "rel \<in> drop (length root) ` {q. strict_prefix root q \<and> isFile fs q}"
    then obtain q where q: "strict_prefix root q" "isFile fs q" "rel = drop (length root) q" by auto
    from q(1) obtain r where "q = root @ r" "r \<noteq> []" by (auto simp: strict_prefix_def prefix_def)
    with q show "rel \<in> {rel. rel \<noteq> [] \<and> isFile fs (root @ rel)}" by simp
  next
    fix rel
    assume "rel \<in> {rel. rel \<noteq> [] \<and> isFile fs (root @ rel)}"
    then have "strict_prefix root (root @ rel)" "isFile fs (root @ rel)" "rel = drop (length root) (root @ rel)"
      by (auto simp: strict_prefix_def)
    then show "rel \<in> drop (length root) ` {q. strict_prefix root q \<and> isFile fs q}" by blast
  qed
  then show ?thesis by (simp add: set_walkFiles)
qed

lemma joinPath_snoc: "joinPath (dir @ [x]) = (if dir = [] then x else joinPath dir @ ''/'' @ x)"
proof (induction dir rule: joinPath.induct)
  case 1
  show ?case by simp
next
  case (2 c)
  show ?case by simp
next
  case (3 c v va)
  then show ?case by simp
qed

lemma relPathOf_json: "relPathOf (dir @ [name @ ''.json'']) = joinPath (dir @ [name])"
  by (simp add: relPathOf_def trimSuffix_def hasSuffix_def joinPath_snoc suffix_def)

text \<open>
  What \<open>ListRequests\<close> lists when the request root is a directory: every regular file
  below the root whose name ends in \<^verbatim>\<open>.json\<close>, as its relative path without the suffix,
  under the group of its directory.
\<close>

lemma ListRequests_listed:
  assumes d: "osStat fs (requestsDir cm) = Inr Dir"
  shows "snd (ListRequests cm fs) = None"
    and "listed (fst (ListRequests cm fs)) g =
     {relPathOf rel | rel. rel \<noteq> [] \<and> isFile fs (requestsDir cm @ rel) \<and>
                          hasSuffix (last rel) ''.json'' \<and> dirOf rel = g}"
proof -
  show "snd (ListRequests cm fs) = None" using d by (simp add: ListRequests_def)
  have f: "fst (ListRequests cm fs) =
      foldl addRequest Map.empty (map (drop (length (requestsDir cm))) (walkFiles fs (requestsDir cm)))"
    using d by (simp add: ListRequests_def)
  have e: "listed Map.empty g = {}" by (simp add: listed_def)
  show "listed (fst (ListRequests cm fs)) g =
     {relPathOf rel | rel. rel \<noteq> [] \<and> isFile fs (requestsDir cm @ rel) \<and>
                          hasSuffix (last rel) ''.json'' \<and> dirOf rel = g}"
    unfolding f listed_foldl e walked_relative by auto
qed

section \<open>Lemmas about workspace initialisation\<close>

lemma sort_remdups_Nil: "(sort (remdups xs) = []) = (xs = [])"
proof -
  have "set (sort (remdups xs)) = set xs" by simp
  then show ?thesis by (metis set_empty)
qed

lemma osReadDir_child:
  assumes "osStat fs (p @ [c]) = Inr n"
  shows "\<exists>es. osReadDir fs p = Inr es \<and> es \<noteq> []"
proof -
  from osStat_parent[OF assms] have d: "osStat fs p = Inr Dir" and m: "map_of fs (p @ [c]) = Some n"
    by simp_all
  from m have "p @ [c] \<in> set (map fst fs)" by (metis map_of_SomeD fst_conv image_eqI set_map)
  then have "p @ [c] \<in> set (filter (\<lambda>q. q \<noteq> [] \<and> butlast q = p) (map fst fs))" by simp
  then have "filter (\<lambda>q. q \<noteq> [] \<and> butlast q = p) (map fst fs) \<noteq> []" by (metis empty_iff empty_set)
  then show ?thesis using d by (simp add: osReadDir_def sort_remdups_Nil)
qed

lemma osReadDir_empty_unreachable:
  assumes "osReadDir fs p = Inr []" "strict_prefix p q"
  shows "isl (osStat fs q)"
proof -
  from assms(2) obtain zs where zs: "q = p @ zs" "zs \<noteq> []"
    by (auto simp: strict_prefix_def prefix_def)
  then obtain c r where "zs = c # r" by (cases zs) auto
  with zs have q: "q = (p @ [c]) @ r" by simp
  have "isl (osStat fs (p @ [c]))"
  proof (cases "osStat fs (p @ [c])")
    case (Inr n)
    from osReadDir_child[OF Inr] assms(1) show ?thesis by simp
  qed simp
  then show ?thesis using osStat_below_absent[of fs "p @ [c]" q] q by simp
qed

lemma osReadDir_nonempty_child:
  assumes "osReadDir fs p = Inr es" "es \<noteq> []"
  shows "\<exists>c n. osStat fs (p @ [c]) = Inr n"
proof -
  from assms(1) have d: "osStat fs p = Inr Dir"
    by (auto simp: osReadDir_def split: sum.splits node.splits)
  with assms have "filter (\<lambda>q. q \<noteq> [] \<and> butlast q = p) (map fst fs) \<noteq> []"
    by (auto simp: osReadDir_def sort_remdups_Nil)
  then obtain q where q: "q \<in> set (map fst fs)" "q \<noteq> []" "butlast q = p"
    by (metis (mono_tags, lifting) filter_False)
  from q(1) obtain n where "map_of fs q = Some n"
    by (metis map_of_eq_None_iff not_Some_eq set_map)
  moreover from q obtain c where "q = p @ [c]" by (metis append_butlast_last_id)
  ultimately have "map_of fs (p @ [c]) = Some n" by simp
  then have "osStat fs (p @ [c]) = Inr n" using d by (simp add: osStat_snoc)
  then show ?thesis by blast
qed

lemma writeDefaultEnvs_preserves:
  "osStat fs q = Inr n \<Longrightarrow> osStat (snd (writeDefaultEnvs L cm envs fs)) q = Inr n"
proof (induction envs arbitrary: fs)
  case Nil
  then show ?case by simp
next
  case (Cons e envs)
  obtain name env where e: "e = (name, env)" by (cases e)
  let ?f = "environmentsDir cm @ [name @ ''.json'']"
  show ?case
  proof (cases "osStat fs ?f = Inl ENOENT")
    case False
    with Cons show ?thesis by (simp add: e)
  next
    case True
    show ?thesis
    proof (cases "osWriteFile fs ?f (jsonMarshalEnvironment L env)")
      case (Inl err)
      with True Cons.prems show ?thesis by (simp add: e)
    next
      case (Inr fs')
      from osWriteFile_ok[OF Inr] have fs': "fs' = AList.update ?f (File (jsonMarshalEnvironment L env)) fs"
        by simp
      from True have "isl (osStat fs ?f)" by simp
      from osStat_update_absent[OF this Cons.prems] fs' have "osStat fs' q = Inr n" by simp
      from Cons.IH[OF this] True Inr show ?thesis by (simp add: e)
    qed
  qed
qed

lemma writeDefaultEnvs_outside:
  "\<not> prefix (environmentsDir cm) q \<Longrightarrow> osStat (snd (writeDefaultEnvs L cm envs fs)) q = osStat fs q"
proof (induction envs arbitrary: fs)
  case Nil
  then show ?case by simp
next
  case (Cons e envs)
  obtain name env where e: "e = (name, env)" by (cases e)
  let ?f = "environmentsDir cm @ [name @ ''.json'']"
  from Cons.prems have np: "\<not> prefix ?f q" by (auto simp: prefix_def)
  show ?case
  proof (cases "osStat fs ?f = Inl ENOENT")
    case False
    with Cons show ?thesis by (simp add: e)
  next
    case True
    show ?thesis
    proof (cases "osWriteFile fs ?f (jsonMarshalEnvironment L env)")
      case (Inl err)
      with True show ?thesis by (simp add: e)
    next
      case (Inr fs')
      from osWriteFile_other[OF Inr np] Cons.IH[OF Cons.prems, of fs'] True Inr
      show ?thesis by (simp add: e)
    qed
  qed
qed

lemma writeDefaultEnvs_writes:
  "osStat fs (environmentsDir cm) = Inr Dir \<Longrightarrow> distinct (map fst envs) \<Longrightarrow>
   (name, env) \<in> set envs \<Longrightarrow> osStat fs (environmentsDir cm @ [name @ ''.json'']) = Inl ENOENT \<Longrightarrow>
   osStat (snd (writeDefaultEnvs L cm envs fs)) (environmentsDir cm @ [name @ ''.json'']) =
     Inr (File (jsonMarshalEnvironment L env))"
proof (induction envs arbitrary: fs)
  case Nil
  then show ?case by simp
next
  case (Cons e envs)
  obtain name' env' where e: "e = (name', env')" by (cases e)
  let ?d = "environmentsDir cm"
  let ?f' = "?d @ [name' @ ''.json'']"
  let ?f = "?d @ [name @ ''.json'']"
  show ?case
  proof (cases "name' = name")
    case True
    with Cons.prems e have env: "env' = env" by (auto simp: rev_image_eqI)
    have nd: "osStat fs ?f \<noteq> Inr Dir" using Cons.prems(4) by simp
    from osWriteFile_in_dir[OF Cons.prems(1) nd]
    have w: "osWriteFile fs ?f (jsonMarshalEnvironment L env) =
             Inr (AList.update ?f (File (jsonMarshalEnvironment L env)) fs)" .
    have "osStat (AList.update ?f (File (jsonMarshalEnvironment L env)) fs) ?f =
          Inr (File (jsonMarshalEnvironment L env))"
      using osWriteFile_same[OF w] .
    from writeDefaultEnvs_preserves[OF this] w Cons.prems(4) True env
    show ?thesis by (simp add: e)
  next
    case False
    with Cons.prems e have mem: "(name, env) \<in> set envs" and dist: "distinct (map fst envs)" by auto
    from False have np: "\<not> prefix ?f' ?f" by (auto simp: prefix_def)
    show ?thesis
    proof (cases "osStat fs ?f' = Inl ENOENT")
      case F: False
      from Cons.IH[OF Cons.prems(1) dist mem Cons.prems(4)] F show ?thesis by (simp add: e)
    next
      case T: True
      then have nd: "osStat fs ?f' \<noteq> Inr Dir" by simp
      from osWriteFile_in_dir[OF Cons.prems(1) nd]
      have w: "osWriteFile fs ?f' (jsonMarshalEnvironment L env') =
               Inr (AList.update ?f' (File (jsonMarshalEnvironment L env')) fs)" .
      let ?fs' = "AList.update ?f' (File (jsonMarshalEnvironment L env')) fs"
      have d': "osStat ?fs' ?d = Inr Dir"
        using osWriteFile_other[OF w, of ?d] Cons.prems(1) by (simp add: prefix_def)
      have a': "osStat ?fs' ?f = Inl ENOENT"
        using osWriteFile_other[OF w np] Cons.prems(4) by simp
      from Cons.IH[OF d' dist mem a'] T w show ?thesis by (simp add: e)
    qed
  qed
qed

lemma writeConfigFile_preserves:
  "osStat fs q = Inr n \<Longrightarrow> \<not> prefix target q \<Longrightarrow>
   osStat (snd (writeConfigFile L fs target config)) q = Inr n"
  by (auto simp: writeConfigFile_def osWriteFile_other split: sum.splits)

lemma SaveRequest_preserves:
  assumes "osStat fs q = Inr n"
    and "\<not> prefix (requestsDir cm @ addExt path ''.json'') q"
    and "\<not> prefix (requestsDir cm @ path @ [''request.json'']) q"
  shows "osStat (snd (SaveRequest L cm fs path config)) q = Inr n"
proof (cases "isl (osStat fs (requestsDir cm @ path))")
  case False
  then show ?thesis
    using writeConfigFile_preserves[OF assms(1) assms(3)] by (simp add: SaveRequest_def)
next
  case True
  show ?thesis
  proof (cases "osMkdirAll fs (butlast (requestsDir cm @ addExt path ''.json''))")
    case (Inl e)
    with True assms(1) show ?thesis by (simp add: SaveRequest_def)
  next
    case (Inr fs1)
    from osMkdirAll_preserves[OF Inr assms(1)] have "osStat fs1 q = Inr n" .
    from writeConfigFile_preserves[OF this assms(2)] True Inr
    show ?thesis by (simp add: SaveRequest_def)
  qed
qed

lemma not_below_sibling:
  "prefix (cwd @ [a]) q \<Longrightarrow> a \<noteq> b \<Longrightarrow> \<not> prefix (cwd @ [b]) q"
  by (auto simp: prefix_def append_eq_append_conv2 Cons_eq_append_conv)

lemma initializeDefaultFiles_cases:
  "snd (initializeDefaultFiles L cm fs) = snd (writeDefaultEnvs L cm defaultEnvs fs) \<or>
   (\<exists>fs2. osReadDir (snd (writeDefaultEnvs L cm defaultEnvs fs)) (requestsDir cm) = Inr [] \<and>
          osMkdirAll (snd (writeDefaultEnvs L cm defaultEnvs fs)) (requestsDir cm @ [''users'']) = Inr fs2 \<and>
          snd (initializeDefaultFiles L cm fs) =
            snd (SaveRequest L cm fs2 [''users'', ''get-users''] sampleRequest))"
  by (auto simp: initializeDefaultFiles_def split: prod.splits option.splits sum.splits)

lemma initializeDefaultFiles_after_envs:
  assumes "osStat (snd (writeDefaultEnvs L cm defaultEnvs fs)) q = Inr n"
  shows "osStat (snd (initializeDefaultFiles L cm fs)) q = Inr n"
proof -
  let ?fs1 = "snd (writeDefaultEnvs L cm defaultEnvs fs)"
  from initializeDefaultFiles_cases[of L cm fs]
  show ?thesis
  proof
    assume "snd (initializeDefaultFiles L cm fs) = ?fs1"
    with assms show ?thesis by simp
  next
    assume "\<exists>fs2. osReadDir ?fs1 (requestsDir cm) = Inr [] \<and>
          osMkdirAll ?fs1 (requestsDir cm @ [''users'']) = Inr fs2 \<and>
          snd (initializeDefaultFiles L cm fs) =
            snd (SaveRequest L cm fs2 [''users'', ''get-users''] sampleRequest)"
    then obtain fs2 where empty: "osReadDir ?fs1 (requestsDir cm) = Inr []"
      and mk: "osMkdirAll ?fs1 (requestsDir cm @ [''users'']) = Inr fs2"
      and res: "snd (initializeDefaultFiles L cm fs) =
            snd (SaveRequest L cm fs2 [''users'', ''get-users''] sampleRequest)" by blast
    have nb: "\<not> strict_prefix (requestsDir cm) q"
      using osReadDir_empty_unreachable[OF empty, of q] assms by auto
    have n1: "\<not> prefix (requestsDir cm @ addExt [''users'', ''get-users''] ''.json'') q"
      using nb by (auto simp: addExt_def prefix_def strict_prefix_def)
    have n2: "\<not> prefix (requestsDir cm @ [''users'', ''get-users''] @ [''request.json'']) q"
      using nb by (auto simp: prefix_def strict_prefix_def)
    from osMkdirAll_preserves[OF mk assms] have "osStat fs2 q = Inr n" .
    from SaveRequest_preserves[OF this n1 n2] res show ?thesis by simp
  qed
qed

lemma seededFS_init:
  "initializeDefaultFiles exampleLib (workspace []) seededFS =
     (None,
      [([''environments''], Dir),
       ([''environments'', ''staging.json''], File ''baseURL=https://staging.example.com''),
       ([''requests''], Dir),
       ([''requests'', ''ping.json''], File ''activeBody=''),
       ([''environments'', ''dev.json''], File ''baseURL=http://localhost:3000''),
       ([''environments'', ''prod.json''], File ''baseURL=https://api.example.com'')])"
  by (simp add: initializeDefaultFiles_def defaultEnvs_def workspace_def seededFS_def osReadDir_def fs_eval)

text \<open>
  A fresh workspace: initialisation in an empty file system creates the two directories,
  the two default environments and the sample request, which is then the one request
  listed.
\<close>

lemma fresh_workspace:
  "NewConfigManager exampleLib [] [] =
     (Inr (workspace []),
      [([''requests''], Dir),
       ([''environments''], Dir),
       ([''environments'', ''dev.json''], File ''baseURL=http://localhost:3000''),
       ([''environments'', ''prod.json''], File ''baseURL=https://api.example.com''),
       ([''requests'', ''users''], Dir),
       ([''requests'', ''users'', ''get-users.json''], File ''activeBody='')])"
  by (simp add: NewConfigManager_def initializeDefaultFiles_def defaultEnvs_def sampleRequest_def
        SaveRequest_def writeConfigFile_def workspace_def osReadDir_def fs_eval)

lemma fresh_workspace_listing:
  "fst (ListRequests (workspace []) (snd (NewConfigManager exampleLib [] []))) ''users'' =
     Some [''users/get-users'']"
  unfolding fresh_workspace
  by (simp add: ListRequests_def walkFiles_def isFile_def addRequest_def relPathOf_def dirOf_def
        trimSuffix_def hasSuffix_def suffix_to_prefix workspace_def fs_eval)

section \<open>Lemmas about request execution\<close>

lemma header_prepareRequest_key:
  assumes "distinct (map fst (canonicalEntries (EnvHeaders env)))"
    and "distinct (map fst (canonicalEntries (Headers config)))"
    and "ck \<noteq> ''Cookie''" and "ck \<notin> authKeys (Auth env)"
  shows "reqHeader (prepareRequest L config env bodyToUse) ck =
     (map_of (sentEntries (canonicalEntries (EnvHeaders env))) ++
      map_of (sentEntries (canonicalEntries (Headers config)))) ck"
  unfolding prepareRequest_def
  by (simp only: applyAuth_other[OF assms(4)] applyCookies_other[OF assms(3)]
        merged_headers[OF assms(1) assms(2)])

lemma header_prepareRequest_all:
  assumes "distinct (map fst (canonicalEntries (EnvHeaders env)))"
    and "distinct (map fst (canonicalEntries (Headers config)))"
    and "sentEntries (EnvCookies env) = []" and "sentEntries (Cookies config) = []"
    and "authIgnored (Auth env)"
  shows "reqHeader (prepareRequest L config env bodyToUse) =
     map_of (sentEntries (canonicalEntries (EnvHeaders env))) ++
     map_of (sentEntries (canonicalEntries (Headers config)))"
  unfolding prepareRequest_def
  by (simp add: applyAuth_ignored[OF assms(5)] applyCookies_header assms(3) assms(4)
        merged_headers[OF assms(1) assms(2)])

lemma ExecuteRequest_ok:
  assumes "LoadRequest L cm fs requestPath = Inr config"
    and "LoadEnvironment L cm fs envName = Inr env"
    and "\<not> newRequestRejects L (Method config) (resolveURL env config)"
  shows "ExecuteRequest L cm fs requestPath envName =
     Inr (prepareRequest L config env (selectBody cm fs requestPath config),
          effectiveTimeout (Timeout config))"
  using assms by (simp add: ExecuteRequest_def)

lemma requestFS_loads:
  "LoadRequest exampleLib exampleCM requestFS [''login''] = Inr loginRecord"
  "LoadEnvironment exampleLib exampleCM requestFS ''staging'' = Inr stagingEnv"
  by (simp_all add: fs_eval requestFS_def LoadRequest_def LoadEnvironment_def)

lemma canonical_examples:
  "canonicalEntries (EnvHeaders stagingEnv) = [(''X-A'', ''1''), (''X-B'', ''2'')]"
  "canonicalEntries (Headers loginRecord) = [(''X-B'', ''3''), (''X-C'', []), (''X-A'', [])]"
  unfolding stagingEnv_def loginRecord_def by code_simp+

lemma exampleLib_accepts: "\<not> newRequestRejects exampleLib method url"
  by (simp add: exampleLib_def)

lemma reqURL_applyHeaders: "reqURL (applyHeaders hs r) = reqURL r"
  by (induction hs arbitrary: r) (auto simp: applyHeaders_def headerSet_def)

lemma reqURL_applyCookies: "reqURL (applyCookies cs r) = reqURL r"
  by (induction cs arbitrary: r) (auto simp: applyCookies_def addCookie_def headerSet_def Let_def)

lemma reqURL_applyAuth: "reqURL (applyAuth L auth r) = reqURL r"
  by (simp add: applyAuth_def headerSet_def split: option.splits)

lemma reqURL_prepareRequest: "reqURL (prepareRequest L config env b) = resolveURL env config"
  by (simp add: prepareRequest_def reqURL_applyAuth reqURL_applyCookies reqURL_applyHeaders newRequest_def)

lemma stripSlash_no_slash: "\<not> suffix ''/'' base \<Longrightarrow> stripSlash base = base"
  by (cases base rule: rev_cases) (simp_all add: stripSlash_def)

lemma prepareRequest_auth_ignored:
  assumes "authIgnored (Auth env)"
  shows "prepareRequest L config env b =
     applyCookies (Cookies config) (applyCookies (EnvCookies env)
       (applyHeaders (Headers config) (applyHeaders (EnvHeaders env)
         (newRequest (Method config) (resolveURL env config) b))))"
  by (simp add: prepareRequest_def applyAuth_ignored[OF assms])

section \<open>Header and cookie merge\<close>

text \<open>
  C1, as stated, fails: an entry with an empty value is skipped, but skipping it does not
  suppress the key. With \<^verbatim>\<open>X-B: 2\<close> in the environment and an empty \<^verbatim>\<open>X-B\<close> in the request,
  the request that \<open>ExecuteRequest\<close> prepares carries the header \<^verbatim>\<open>X-B: 2\<close>.
\<close>

theorem header_merge_counterexample:
  "reqHeader (prepareRequest exampleLib (exampleRecord\<lparr>Headers := [(''X-B'', [])]\<rparr>)
                (exampleEnv\<lparr>EnvHeaders := [(''X-B'', ''2'')]\<rparr>) []) ''X-B'' = Some ''2''"
  by (simp add: prepareRequest_def applyAuth_def applyCookies_def applyHeaders_def headerSet_def
        newRequest_def exampleRecord_def exampleEnv_def canonicalMIMEHeaderKey_def
        validHeaderFieldByte_def Let_def)

text \<open>
  C1, amended. Let \<open>H\<close> be the environment's header entries with a non-empty value,
  overlaid with the request's header entries with a non-empty value, the request winning
  on a collision; keys are compared in their canonical form, and the keys of one map are
  assumed to stay distinct in that form. An entry with an empty value neither sends nor
  suppresses its key. The request that \<open>ExecuteRequest\<close> prepares agrees with \<open>H\<close> on every
  key other than \<^verbatim>\<open>Cookie\<close>, \<^verbatim>\<open>Authorization\<close> and the header an auth descriptor names: these
  are the keys that the cookie step and the authentication step, which run after the two
  header loops, may write. When no cookie has a non-empty value and the auth descriptor
  selects nothing, the headers of the prepared request are exactly \<open>H\<close>. When record and
  environment load and \<^verbatim>\<open>http.NewRequest\<close> accepts method and URL, \<open>ExecuteRequest\<close> returns
  a request whose headers agree with \<open>H\<close> in the same way. For the environment headers
  \<^verbatim>\<open>{"X-A":"1","X-B":"2"}\<close> and the request headers \<^verbatim>\<open>{"X-B":"3","X-C":""}\<close>, with no cookies
  and no auth, the headers are exactly \<^verbatim>\<open>{"X-A":"1","X-B":"3"}\<close>.
\<close>

theorem header_merge:
  "distinct (map fst (canonicalEntries (EnvHeaders env))) \<Longrightarrow>
   distinct (map fst (canonicalEntries (Headers config))) \<Longrightarrow>
   (ck \<noteq> ''Cookie'' \<and> ck \<notin> authKeys (Auth env) \<longrightarrow>
      reqHeader (prepareRequest L config env bodyToUse) ck =
        (map_of (sentEntries (canonicalEntries (EnvHeaders env))) ++
         map_of (sentEntries (canonicalEntries (Headers config)))) ck) \<and>
   (sentEntries (EnvCookies env) = [] \<and> sentEntries (Cookies config) = [] \<and>
    authIgnored (Auth env) \<longrightarrow>
      reqHeader (prepareRequest L config env bodyToUse) =
        map_of (sentEntries (canonicalEntries (EnvHeaders env))) ++
        map_of (sentEntries (canonicalEntries (Headers config)))) \<and>
   (LoadRequest L cm fs requestPath = Inr config \<and>
    LoadEnvironment L cm fs envName = Inr env \<and>
    \<not> newRequestRejects L (Method config) (resolveURL env config) \<and>
    ck \<noteq> ''Cookie'' \<and> ck \<notin> authKeys (Auth env) \<longrightarrow>
      (\<exists>req timeout.
         ExecuteRequest L cm fs requestPath envName = Inr (req, timeout) \<and>
         reqHeader req ck =
           (map_of (sentEntries (canonicalEntries (EnvHeaders env))) ++
            map_of (sentEntries (canonicalEntries (Headers config)))) ck)) \<and>
   reqHeader (prepareRequest L (exampleRecord\<lparr>Headers := [(''X-B'', ''3''), (''X-C'', [])]\<rparr>)
                (exampleEnv\<lparr>EnvHeaders := [(''X-A'', ''1''), (''X-B'', ''2'')]\<rparr>) bodyToUse) =
     [''X-A'' \<mapsto> ''1'', ''X-B'' \<mapsto> ''3'']"
proof (intro conjI impI)
  assume de: "distinct (map fst (canonicalEntries (EnvHeaders env)))"
    and dr: "distinct (map fst (canonicalEntries (Headers config)))"
  {
    assume "ck \<noteq> ''Cookie'' \<and> ck \<notin> authKeys (Auth env)"
    then show "reqHeader (prepareRequest L config env bodyToUse) ck =
        (map_of (sentEntries (canonicalEntries (EnvHeaders env))) ++
         map_of (sentEntries (canonicalEntries (Headers config)))) ck"
      using header_prepareRequest_key[OF de dr] by blast
  next
    assume "sentEntries (EnvCookies env) = [] \<and> sentEntries (Cookies config) = [] \<and>
            authIgnored (Auth env)"
    then show "reqHeader (prepareRequest L config env bodyToUse) =
        map_of (sentEntries (canonicalEntries (EnvHeaders env))) ++
        map_of (sentEntries (canonicalEntries (Headers config)))"
      using header_prepareRequest_all[OF de dr] by blast
  next
    assume h: "LoadRequest L cm fs requestPath = Inr config \<and>
      LoadEnvironment L cm fs envName = Inr env \<and>
      \<not> newRequestRejects L (Method config) (resolveURL env config) \<and>
      ck \<noteq> ''Cookie'' \<and> ck \<notin> authKeys (Auth env)"
    then have ex: "ExecuteRequest L cm fs requestPath envName =
       Inr (prepareRequest L config env (selectBody cm fs requestPath config),
            effectiveTimeout (Timeout config))"
      using ExecuteRequest_ok by blast
    from h have "reqHeader (prepareRequest L config env (selectBody cm fs requestPath config)) ck =
        (map_of (sentEntries (canonicalEntries (EnvHeaders env))) ++
         map_of (sentEntries (canonicalEntries (Headers config)))) ck"
      using header_prepareRequest_key[OF de dr] by blast
    with ex show "\<exists>req timeout.
         ExecuteRequest L cm fs requestPath envName = Inr (req, timeout) \<and>
         reqHeader req ck =
           (map_of (sentEntries (canonicalEntries (EnvHeaders env))) ++
            map_of (sentEntries (canonicalEntries (Headers config)))) ck"
      by simp
  }
  show "reqHeader (prepareRequest L (exampleRecord\<lparr>Headers := [(''X-B'', ''3''), (''X-C'', [])]\<rparr>)
                (exampleEnv\<lparr>EnvHeaders := [(''X-A'', ''1''), (''X-B'', ''2'')]\<rparr>) bodyToUse) =
     [''X-A'' \<mapsto> ''1'', ''X-B'' \<mapsto> ''3'']"
    by (rule ext)
       (simp add: prepareRequest_def applyAuth_def applyCookies_def applyHeaders_def headerSet_def
          newRequest_def exampleRecord_def exampleEnv_def canonicalMIMEHeaderKey_def
          validHeaderFieldByte_def Let_def)
qed

text \<open>
  C1, witness: \<open>ExecuteRequest\<close> on a store whose environment has \<^verbatim>\<open>x-a: 1\<close> and \<^verbatim>\<open>X-B: 2\<close>
  and whose request has \<^verbatim>\<open>X-B: 3\<close> and empty values for \<^verbatim>\<open>X-C\<close> and \<^verbatim>\<open>x-a\<close>. The request wins
  on \<^verbatim>\<open>X-B\<close>, its empty \<^verbatim>\<open>x-a\<close> does not suppress the environment's value, and \<^verbatim>\<open>X-C\<close> is
  not sent.
\<close>

theorem header_merge_witness:
  "\<exists>req timeout.
     ExecuteRequest exampleLib exampleCM requestFS [''login''] ''staging'' = Inr (req, timeout) \<and>
     reqHeader req ''X-A'' = Some ''1'' \<and> reqHeader req ''X-B'' = Some ''3'' \<and>
     reqHeader req ''X-C'' = None"
proof -
  have de: "distinct (map fst (canonicalEntries (EnvHeaders stagingEnv)))"
    and dr: "distinct (map fst (canonicalEntries (Headers loginRecord)))"
    unfolding canonical_examples by simp_all
  have ak: "authKeys (Auth stagingEnv) = {''Authorization''}"
    by (simp add: authKeys_def stagingEnv_def)
  have hyp: "LoadRequest exampleLib exampleCM requestFS [''login''] = Inr loginRecord \<and>
      LoadEnvironment exampleLib exampleCM requestFS ''staging'' = Inr stagingEnv \<and>
      \<not> newRequestRejects exampleLib (Method loginRecord) (resolveURL stagingEnv loginRecord) \<and>
      ck \<noteq> ''Cookie'' \<and> ck \<notin> authKeys (Auth stagingEnv)"
    if "ck \<noteq> ''Cookie''" "ck \<noteq> ''Authorization''" for ck
    using that by (simp add: requestFS_loads exampleLib_accepts ak)
  have val: "(map_of (sentEntries (canonicalEntries (EnvHeaders stagingEnv))) ++
              map_of (sentEntries (canonicalEntries (Headers loginRecord)))) ck =
             [''X-A'' \<mapsto> ''1'', ''X-B'' \<mapsto> ''3''] ck" for ck
    unfolding canonical_examples by (simp add: sentEntries_def map_add_def)
  note ex = ExecuteRequest_ok[OF requestFS_loads exampleLib_accepts]
  note m = conjunct1[OF conjunct2[OF conjunct2[OF header_merge[OF de dr,
          where L = exampleLib and cm = exampleCM and fs = requestFS
            and requestPath = "[''login'']" and envName = "''staging''"]]]]
  have a: "reqHeader (prepareRequest exampleLib loginRecord stagingEnv
             (selectBody exampleCM requestFS [''login''] loginRecord)) ''X-A'' = Some ''1''"
    using m[of "''X-A''"] hyp[of "''X-A''"] unfolding ex val by simp
  have b: "reqHeader (prepareRequest exampleLib loginRecord stagingEnv
             (selectBody exampleCM requestFS [''login''] loginRecord)) ''X-B'' = Some ''3''"
    using m[of "''X-B''"] hyp[of "''X-B''"] unfolding ex val by simp
  have c: "reqHeader (prepareRequest exampleLib loginRecord stagingEnv
             (selectBody exampleCM requestFS [''login''] loginRecord)) ''X-C'' = None"
    using m[of "''X-C''"] hyp[of "''X-C''"] unfolding ex val by simp
  show ?thesis unfolding ex using a b c by simp
qed

text \<open>
  C2: the cookie step appends every cookie with a non-empty value to the \<^verbatim>\<open>Cookie\<close> line
  of the request, the environment's cookies first, then the request's; it never replaces
  a cookie of the line. A name that both maps define is therefore sent twice, the
  environment's value first; the request's value does not replace it. For \<^verbatim>\<open>sid=a\<close> in
  the environment and \<^verbatim>\<open>sid=b\<close> in the request, the prepared request carries the line
  \<^verbatim>\<open>Cookie: sid=a; sid=b\<close>.
\<close>

theorem cookie_merge_sends_both:
  "reqHeader (applyCookies rc (applyCookies ec (newRequest m u b))) ''Cookie'' =
     (if sentEntries ec @ sentEntries rc = [] then None
      else Some (cookieLine (sentEntries ec @ sentEntries rc))) \<and>
   reqHeader (prepareRequest L (exampleRecord\<lparr>Cookies := [(''sid'', ''b'')]\<rparr>)
                (exampleEnv\<lparr>EnvCookies := [(''sid'', ''a'')]\<rparr>) bodyToUse) ''Cookie'' =
     Some ''sid=a; sid=b''"
proof
  show "reqHeader (applyCookies rc (applyCookies ec (newRequest m u b))) ''Cookie'' =
     (if sentEntries ec @ sentEntries rc = [] then None
      else Some (cookieLine (sentEntries ec @ sentEntries rc)))"
    by (simp add: applyCookies_twice applyCookies_header sentEntries_append headerGet_newRequest
          reqHeader_newRequest)
next
  show "reqHeader (prepareRequest L (exampleRecord\<lparr>Cookies := [(''sid'', ''b'')]\<rparr>)
                (exampleEnv\<lparr>EnvCookies := [(''sid'', ''a'')]\<rparr>) bodyToUse) ''Cookie'' =
     Some ''sid=a; sid=b''"
    by (simp add: prepareRequest_def applyAuth_def applyCookies_def applyHeaders_def headerSet_def
          addCookie_def headerGet_def sanitizeCookieName_def sanitizeCookieValue_def
          validCookieValueByte_def newRequest_def exampleRecord_def exampleEnv_def
          canonical_Cookie Let_def)
qed

section \<open>Variable substitution\<close>

text \<open>
  C7, as stated, fails: a placeholder whose key is no variable is not always left verbatim.
  The environment may hold a variable whose own placeholder spans two placeholders of the
  URL; here the base URL is empty, the request URL is \<^verbatim>\<open>{{m}}{{m}}\<close>, and neither \<^verbatim>\<open>{{m}}\<close>
  survives in the resolved URL although \<^verbatim>\<open>m\<close> is no variable.
\<close>

theorem variable_substitution_counterexample:
  "resolveURL (exampleEnv\<lparr>Variables := [(''m}}{{m'', ''X'')]\<rparr>) (exampleRecord\<lparr>URL := ''{{m}}{{m}}''\<rparr>) = ''X''"
  by (simp add: resolveURL_def stripSlash_def substituteVariables_def replaceAll_def
        exampleEnv_def exampleRecord_def)

text \<open>
  C7, amended. The full URL is the base URL of the environment, without its last byte
  when that byte is a slash and unchanged otherwise, followed by the URL of the request;
  the resolved URL is the full URL after the variables are applied one after the other,
  each pass working on the result of the pass before. With a single variable whose key has
  no brace, every occurrence of the key's placeholder in the full URL is replaced by the
  value. A pass leaves a URL without the placeholder as it is. When no key has a brace, a
  placeholder \<^verbatim>\<open>{{m}}\<close> of the full URL (\<open>m\<close> without braces and not a key) is left
  verbatim in the resolved URL, whatever surrounds it. When record and environment load
  and \<^verbatim>\<open>http.NewRequest\<close> accepts method and URL, the request that \<open>ExecuteRequest\<close> hands to
  the client has the resolved URL. The variables \<^verbatim>\<open>{"host":"api.test"}\<close> turn the request URL
  \<^verbatim>\<open>https://{{host}}/v1/x\<close> (empty base URL) into \<^verbatim>\<open>https://api.test/v1/x\<close>.
\<close>

theorem variable_substitution:
  "stripSlash (base @ ''/'') = base \<and>
   (\<not> suffix ''/'' base \<longrightarrow> stripSlash base = base) \<and>
   resolveURL env config =
     substituteVariables (Variables env) (stripSlash (BaseURL env) @ URL config) \<and>
   substituteVariables [] url = url \<and>
   substituteVariables ((key, v) # vars) url =
     substituteVariables vars (replaceAll url (placeholder key) v) \<and>
   (noBrace key \<and> stripSlash (BaseURL env) @ URL config = a @ placeholder key @ b \<longrightarrow>
      resolveURL (env\<lparr>Variables := [(key, v)]\<rparr>) config =
        replaceAll a (placeholder key) v @ v @ replaceAll b (placeholder key) v) \<and>
   (\<not> sublist (placeholder key) url \<longrightarrow> replaceAll url (placeholder key) v = url) \<and>
   ((\<forall>(k, w) \<in> set (Variables env). noBrace k \<and> k \<noteq> m) \<and> noBrace m \<and>
    stripSlash (BaseURL env) @ URL config = c @ placeholder m @ d \<longrightarrow>
      resolveURL env config =
        substituteVariables (Variables env) c @ placeholder m @ substituteVariables (Variables env) d) \<and>
   (LoadRequest L cm fs requestPath = Inr config \<and> LoadEnvironment L cm fs envName = Inr env \<and>
    \<not> newRequestRejects L (Method config) (resolveURL env config) \<longrightarrow>
      (\<exists>req timeout. ExecuteRequest L cm fs requestPath envName = Inr (req, timeout) \<and>
                      reqURL req = resolveURL env config)) \<and>
   resolveURL (exampleEnv\<lparr>Variables := [(''host'', ''api.test'')]\<rparr>)
              (exampleRecord\<lparr>URL := ''https://{{host}}/v1/x''\<rparr>) = ''https://api.test/v1/x''"
proof (intro conjI impI)
  show "stripSlash (base @ ''/'') = base" by (simp add: stripSlash_def)
  show "stripSlash base = base" if "\<not> suffix ''/'' base"
    using that by (rule stripSlash_no_slash)
  show "resolveURL env config =
     substituteVariables (Variables env) (stripSlash (BaseURL env) @ URL config)"
    by (simp add: resolveURL_def)
  show "substituteVariables [] url = url" by (simp add: substituteVariables_def)
  show "substituteVariables ((key, v) # vars) url =
     substituteVariables vars (replaceAll url (placeholder key) v)"
    by (simp add: substituteVariables_def placeholder_def)
  show "resolveURL (env\<lparr>Variables := [(key, v)]\<rparr>) config =
        replaceAll a (placeholder key) v @ v @ replaceAll b (placeholder key) v"
    if "noBrace key \<and> stripSlash (BaseURL env) @ URL config = a @ placeholder key @ b"
  proof -
    have "resolveURL (env\<lparr>Variables := [(key, v)]\<rparr>) config =
          replaceAll (stripSlash (BaseURL env) @ URL config) (placeholder key) v"
      by (simp add: resolveURL_def substituteVariables_def placeholder_def)
    also have "\<dots> = replaceAll (a @ placeholder key @ b) (placeholder key) v"
      using that by simp
    also have "\<dots> = replaceAll a (placeholder key) v @ v @ replaceAll b (placeholder key) v"
      using that replaceAll_replaces_each by blast
    finally show ?thesis .
  qed
  show "replaceAll url (placeholder key) v = url" if "\<not> sublist (placeholder key) url"
    using that by (simp add: placeholder_Cons replaceAll_def replaceNE_no_occurrence)
  show "resolveURL env config =
        substituteVariables (Variables env) c @ placeholder m @ substituteVariables (Variables env) d"
    if "(\<forall>(k, w) \<in> set (Variables env). noBrace k \<and> k \<noteq> m) \<and> noBrace m \<and>
        stripSlash (BaseURL env) @ URL config = c @ placeholder m @ d"
  proof -
    from that have 1: "\<forall>(k, w) \<in> set (Variables env). noBrace k \<and> k \<noteq> m" and 2: "noBrace m"
      and 3: "stripSlash (BaseURL env) @ URL config = c @ placeholder m @ d" by blast+
    show ?thesis
      unfolding resolveURL_def 3 by (rule substituteVariables_keeps_other[OF 1 2])
  qed
  show "\<exists>req timeout. ExecuteRequest L cm fs requestPath envName = Inr (req, timeout) \<and>
                      reqURL req = resolveURL env config"
    if "LoadRequest L cm fs requestPath = Inr config \<and> LoadEnvironment L cm fs envName = Inr env \<and>
        \<not> newRequestRejects L (Method config) (resolveURL env config)"
    using that by (simp add: ExecuteRequest_def reqURL_prepareRequest)
  show "resolveURL (exampleEnv\<lparr>Variables := [(''host'', ''api.test'')]\<rparr>)
              (exampleRecord\<lparr>URL := ''https://{{host}}/v1/x''\<rparr>) = ''https://api.test/v1/x''"
    by (simp add: resolveURL_def stripSlash_def substituteVariables_def replaceAll_def
          exampleEnv_def exampleRecord_def)
qed

text \<open>
  C7, witness: \<open>ExecuteRequest\<close> on a store whose environment has the base URL
  \<^verbatim>\<open>https://{{host}}/\<close> and the variables \<open>host\<close> and \<open>tenant\<close>, and whose request has the URL
  \<^verbatim>\<open>/v1/{{tenant}}/login?next={{missing}}\<close>: the slash of the base URL is dropped, both
  variables are replaced and \<^verbatim>\<open>{{missing}}\<close> is left as it is.
\<close>

theorem variable_substitution_witness:
  "\<not> suffix ''/'' ''https://{{host}}'' \<and> stripSlash ''https://{{host}}'' = ''https://{{host}}'' \<and>
   noBrace ''host'' \<and> noBrace ''missing'' \<and>
   \<not> sublist (placeholder ''host'') ''/v1/x'' \<and>
   replaceAll ''/v1/x'' (placeholder ''host'') ''api.test'' = ''/v1/x'' \<and>
   resolveURL (stagingEnv\<lparr>Variables := [(''host'', ''api.test'')]\<rparr>) loginRecord =
     ''https://api.test/v1/{{tenant}}/login?next={{missing}}'' \<and>
   (\<exists>req timeout.
      ExecuteRequest exampleLib exampleCM requestFS [''login''] ''staging'' = Inr (req, timeout) \<and>
      reqURL req = ''https://api.test/v1/acme/login?next={{missing}}'')"
proof -
  have nb: "noBrace ''host''" "noBrace ''missing''" by (simp_all add: noBrace_def)
  have ns: "\<not> suffix ''/'' ''https://{{host}}''" by (simp add: suffix_to_prefix)
  have s: "\<not> sublist (placeholder ''host'') ''/v1/x''"
    by (simp add: placeholder_def sublist_Cons_right)
  have full: "stripSlash (BaseURL stagingEnv) @ URL loginRecord =
              ''https://{{host}}/v1/{{tenant}}/login?next={{missing}}''"
    by (simp add: stripSlash_def stagingEnv_def loginRecord_def)
  have d1: "stripSlash (BaseURL stagingEnv) @ URL loginRecord =
            ''https://'' @ placeholder ''host'' @ ''/v1/{{tenant}}/login?next={{missing}}''"
    unfolding full by (simp add: placeholder_def)
  have d2: "stripSlash (BaseURL stagingEnv) @ URL loginRecord =
            ''https://{{host}}/v1/{{tenant}}/login?next='' @ placeholder ''missing'' @ []"
    unfolding full by (simp add: placeholder_def)
  have vs: "\<forall>(k, w) \<in> set (Variables stagingEnv). noBrace k \<and> k \<noteq> ''missing''"
    by (simp add: stagingEnv_def noBrace_def)
  have e: "replaceAll ''https://'' (placeholder ''host'') ''api.test'' = ''https://''"
          "replaceAll ''/v1/{{tenant}}/login?next={{missing}}'' (placeholder ''host'') ''api.test'' =
             ''/v1/{{tenant}}/login?next={{missing}}''"
          "substituteVariables (Variables stagingEnv) ''https://{{host}}/v1/{{tenant}}/login?next='' =
             ''https://api.test/v1/acme/login?next=''"
          "substituteVariables (Variables stagingEnv) [] = []"
    by (simp_all add: substituteVariables_def replaceAll_def placeholder_def stagingEnv_def)
  note t = variable_substitution[where base = "''https://{{host}}''" and env = stagingEnv
      and config = loginRecord and key = "''host''" and v = "''api.test''"
      and a = "''https://''" and b = "''/v1/{{tenant}}/login?next={{missing}}''"
      and url = "''/v1/x''" and m = "''missing''"
      and c = "''https://{{host}}/v1/{{tenant}}/login?next=''" and d = "[]"
      and L = exampleLib and cm = exampleCM and fs = requestFS
      and requestPath = "[''login'']" and envName = "''staging''"]
  from t ns have 1: "stripSlash ''https://{{host}}'' = ''https://{{host}}''" by blast
  from t nb(1) d1
  have "resolveURL (stagingEnv\<lparr>Variables := [(''host'', ''api.test'')]\<rparr>) loginRecord =
        replaceAll ''https://'' (placeholder ''host'') ''api.test'' @ ''api.test'' @
        replaceAll ''/v1/{{tenant}}/login?next={{missing}}'' (placeholder ''host'') ''api.test''"
    by blast
  then have 2: "resolveURL (stagingEnv\<lparr>Variables := [(''host'', ''api.test'')]\<rparr>) loginRecord =
     ''https://api.test/v1/{{tenant}}/login?next={{missing}}''"
    unfolding e by simp
  from t s have 3: "replaceAll ''/v1/x'' (placeholder ''host'') ''api.test'' = ''/v1/x''" by blast
  from t vs nb(2) d2
  have "resolveURL stagingEnv loginRecord =
        substituteVariables (Variables stagingEnv) ''https://{{host}}/v1/{{tenant}}/login?next='' @
        placeholder ''missing'' @ substituteVariables (Variables stagingEnv) []"
    by blast
  then have 4: "resolveURL stagingEnv loginRecord = ''https://api.test/v1/acme/login?next={{missing}}''"
    unfolding e by (simp add: placeholder_def)
  from t requestFS_loads exampleLib_accepts
  have "\<exists>req timeout.
      ExecuteRequest exampleLib exampleCM requestFS [''login''] ''staging'' = Inr (req, timeout) \<and>
      reqURL req = resolveURL stagingEnv loginRecord"
    by blast
  then have 5: "\<exists>req timeout.
      ExecuteRequest exampleLib exampleCM requestFS [''login''] ''staging'' = Inr (req, timeout) \<and>
      reqURL req = ''https://api.test/v1/acme/login?next={{missing}}''"
    unfolding 4 .
  from ns 1 nb s 3 2 5 show ?thesis by (intro conjI)
qed

section \<open>Authentication\<close>

text \<open>
  C9: when the auth type is absent, empty or none of \<^verbatim>\<open>bearer\<close>, \<^verbatim>\<open>basic\<close>, \<^verbatim>\<open>api-key\<close>, when
  it is \<^verbatim>\<open>bearer\<close> with a missing or empty token, or \<^verbatim>\<open>api-key\<close> with a missing or empty
  key or header name, the authentication step leaves the request as it is, and the
  prepared request is the one an environment without auth descriptor gives. Such an
  environment loads whenever its file is read and decoded. Once record and environment
  are loaded, \<open>ExecuteRequest\<close> fails only when \<^verbatim>\<open>http.NewRequest\<close> rejects method or URL, and
  otherwise hands to the client the request as it is after the header and cookie steps:
  no authentication header is applied and no error comes from the auth descriptor.
\<close>

theorem auth_ignored:
  "authIgnored (Auth env) \<Longrightarrow>
   applyAuth L (Auth env) req = req \<and>
   prepareRequest L config env bodyToUse = prepareRequest L config (env\<lparr>Auth := Map.empty\<rparr>) bodyToUse \<and>
   (osReadFile fs (environmentsDir cm @ [envName @ ''.json'']) = Inr data \<and>
    jsonUnmarshalEnvironment L data = Some env \<longrightarrow>
      LoadEnvironment L cm fs envName = Inr env) \<and>
   (LoadRequest L cm fs requestPath = Inr config \<and> LoadEnvironment L cm fs envName = Inr env \<longrightarrow>
      ExecuteRequest L cm fs requestPath envName =
        (if newRequestRejects L (Method config) (resolveURL env config) then Inl CreatingRequest
         else Inr (applyCookies (Cookies config) (applyCookies (EnvCookies env)
                     (applyHeaders (Headers config) (applyHeaders (EnvHeaders env)
                       (newRequest (Method config) (resolveURL env config)
                          (selectBody cm fs requestPath config))))),
                   effectiveTimeout (Timeout config))))"
proof -
  assume a: "authIgnored (Auth env)"
  have e: "\<And>r. applyAuth L Map.empty r = r" by (simp add: applyAuth_def)
  have u: "resolveURL (env\<lparr>Auth := Map.empty\<rparr>) config = resolveURL env config"
    by (simp add: resolveURL_def)
  have 1: "applyAuth L (Auth env) req = req" by (rule applyAuth_ignored[OF a])
  have 2: "prepareRequest L config env bodyToUse =
           prepareRequest L config (env\<lparr>Auth := Map.empty\<rparr>) bodyToUse"
    by (simp add: applyAuth_ignored[OF a] prepareRequest_def e u)
  have 3: "osReadFile fs (environmentsDir cm @ [envName @ ''.json'']) = Inr data \<and>
    jsonUnmarshalEnvironment L data = Some env \<longrightarrow> LoadEnvironment L cm fs envName = Inr env"
    by (simp add: LoadEnvironment_def)
  have 4: "LoadRequest L cm fs requestPath = Inr config \<and> LoadEnvironment L cm fs envName = Inr env \<longrightarrow>
      ExecuteRequest L cm fs requestPath envName =
        (if newRequestRejects L (Method config) (resolveURL env config) then Inl CreatingRequest
         else Inr (applyCookies (Cookies config) (applyCookies (EnvCookies env)
                     (applyHeaders (Headers config) (applyHeaders (EnvHeaders env)
                       (newRequest (Method config) (resolveURL env config)
                          (selectBody cm fs requestPath config))))),
                   effectiveTimeout (Timeout config)))"
    by (simp add: ExecuteRequest_def prepareRequest_auth_ignored[OF a])
  from 1 2 3 4 show ?thesis by (intro conjI)
qed

text \<open>
  C9, witness: an environment with the unknown auth type \<^verbatim>\<open>oauth2\<close> loads, and
  \<open>ExecuteRequest\<close> returns a request without \<^verbatim>\<open>Authorization\<close> header.
\<close>

theorem auth_ignored_witness:
  "authIgnored (Auth stagingEnv) \<and>
   LoadEnvironment exampleLib exampleCM requestFS ''staging'' = Inr stagingEnv \<and>
   (\<exists>req timeout.
      ExecuteRequest exampleLib exampleCM requestFS [''login''] ''staging'' = Inr (req, timeout) \<and>
      reqHeader req ''Authorization'' = None \<and>
      reqHeader req = [''X-A'' \<mapsto> ''1'', ''X-B'' \<mapsto> ''3'', ''Cookie'' \<mapsto> ''sid=a; sid=b''])"
proof -
  have a: "authIgnored (Auth stagingEnv)" by (simp add: authIgnored_def stagingEnv_def)
  have rd: "osReadFile requestFS (environmentsDir exampleCM @ [''staging'' @ ''.json'']) =
              Inr ''staging environment'' \<and>
            jsonUnmarshalEnvironment exampleLib ''staging environment'' = Some stagingEnv"
    by (simp add: fs_eval requestFS_def)
  note t = auth_ignored[OF a, where L = exampleLib and cm = exampleCM and fs = requestFS
      and requestPath = "[''login'']" and envName = "''staging''" and config = loginRecord
      and data = "''staging environment''"]
  from conjunct1[OF conjunct2[OF conjunct2[OF t]]] rd
  have le: "LoadEnvironment exampleLib exampleCM requestFS ''staging'' = Inr stagingEnv"
    by (rule mp)
  from conjunct2[OF conjunct2[OF conjunct2[OF t]]] requestFS_loads(1) le
  have ex: "ExecuteRequest exampleLib exampleCM requestFS [''login''] ''staging'' =
        Inr (applyCookies (Cookies loginRecord) (applyCookies (EnvCookies stagingEnv)
                     (applyHeaders (Headers loginRecord) (applyHeaders (EnvHeaders stagingEnv)
                       (newRequest (Method loginRecord) (resolveURL stagingEnv loginRecord)
                          (selectBody exampleCM requestFS [''login''] loginRecord))))),
                   effectiveTimeout (Timeout loginRecord))"
    by (simp add: exampleLib_accepts)
  have de: "distinct (map fst (canonicalEntries (EnvHeaders stagingEnv)))"
    and dr: "distinct (map fst (canonicalEntries (Headers loginRecord)))"
    unfolding canonical_examples by simp_all
  have ck: "cookieLine (sentEntries (EnvCookies stagingEnv @ Cookies loginRecord)) = ''sid=a; sid=b''"
    by (simp add: stagingEnv_def loginRecord_def sentEntries_def cookiePair_def
          sanitizeCookieName_def sanitizeCookieValue_def validCookieValueByte_def Let_def)
  have se: "sentEntries (EnvCookies stagingEnv @ Cookies loginRecord) \<noteq> []"
    by (simp add: stagingEnv_def loginRecord_def sentEntries_def)
  have hg: "headerGet (applyHeaders (Headers loginRecord) (applyHeaders (EnvHeaders stagingEnv)
              (newRequest m u b))) ''Cookie'' = []" for m u b
    unfolding headerGet_def canonical_Cookie merged_headers[OF de dr] canonical_examples
    by (simp add: sentEntries_def map_add_def)
  have h: "reqHeader (applyCookies (Cookies loginRecord) (applyCookies (EnvCookies stagingEnv)
                     (applyHeaders (Headers loginRecord) (applyHeaders (EnvHeaders stagingEnv)
                       (newRequest m u b))))) =
           [''X-A'' \<mapsto> ''1'', ''X-B'' \<mapsto> ''3'', ''Cookie'' \<mapsto> ''sid=a; sid=b'']" for m u b
    unfolding applyCookies_twice applyCookies_header hg ck merged_headers[OF de dr] canonical_examples
    using se by (auto simp: sentEntries_def map_add_def fun_upd_def)
  show ?thesis unfolding ex using a le by (simp add: h)
qed

section \<open>Body selection\<close>

text \<open>
  C3: for a record with a non-empty \<open>ActiveBody\<close>, the body text is the content of
  \<^verbatim>\<open><requestDir>/<activeBody>.json\<close> when that file can be read, and the inline body of the
  record when it cannot; a file that cannot be read is no error. Once record and
  environment are loaded and \<^verbatim>\<open>http.NewRequest\<close> accepts method and URL, the request is
  built with that body (an empty text meaning no body). A variant name is one file name.
\<close>

theorem active_body_fallback:
  "ActiveBody config \<noteq> [] \<Longrightarrow>
   selectBody cm fs requestPath config =
     (case osReadFile fs (requestsDir cm @ requestPath @ [ActiveBody config @ ''.json'']) of
        Inr bodyData \<Rightarrow> bodyData | Inl e \<Rightarrow> Body config) \<and>
   (LoadRequest L cm fs requestPath = Inr config \<and>
    LoadEnvironment L cm fs envName = Inr env \<and>
    \<not> newRequestRejects L (Method config) (resolveURL env config) \<longrightarrow>
      (\<exists>req timeout.
         ExecuteRequest L cm fs requestPath envName = Inr (req, timeout) \<and>
         reqBody req =
           (case osReadFile fs (requestsDir cm @ requestPath @ [ActiveBody config @ ''.json'']) of
              Inr bodyData \<Rightarrow> if bodyData \<noteq> [] then Some bodyData else None
            | Inl e \<Rightarrow> if Body config \<noteq> [] then Some (Body config) else None)))"
proof (intro conjI impI)
  assume ab: "ActiveBody config \<noteq> []"
  show "selectBody cm fs requestPath config =
     (case osReadFile fs (requestsDir cm @ requestPath @ [ActiveBody config @ ''.json'']) of
        Inr bodyData \<Rightarrow> bodyData | Inl e \<Rightarrow> Body config)"
    by (rule selectBody_active[OF ab])
next
  assume ab: "ActiveBody config \<noteq> []"
    and h: "LoadRequest L cm fs requestPath = Inr config \<and>
            LoadEnvironment L cm fs envName = Inr env \<and>
            \<not> newRequestRejects L (Method config) (resolveURL env config)"
  have ex: "ExecuteRequest L cm fs requestPath envName =
        Inr (prepareRequest L config env (selectBody cm fs requestPath config),
             effectiveTimeout (Timeout config))"
    using h by (simp add: ExecuteRequest_def)
  show "\<exists>req timeout.
         ExecuteRequest L cm fs requestPath envName = Inr (req, timeout) \<and>
         reqBody req =
           (case osReadFile fs (requestsDir cm @ requestPath @ [ActiveBody config @ ''.json'']) of
              Inr bodyData \<Rightarrow> if bodyData \<noteq> [] then Some bodyData else None
            | Inl e \<Rightarrow> if Body config \<noteq> [] then Some (Body config) else None)"
    unfolding ex
    by (simp add: selectBody_active[OF ab] reqBody_prepareRequest split: sum.splits)
qed

text \<open>
  C3, witness: the record names the variant \<^verbatim>\<open>admin\<close>, the file \<^verbatim>\<open>admin.json\<close> is gone, and
  the request is built with the inline body.
\<close>

theorem active_body_fallback_witness:
  "\<exists>req timeout.
      ExecuteRequest exampleLib exampleCM staleFS [''users'', ''post-user''] ''dev'' = Inr (req, timeout) \<and>
      reqBody req = Some ''inline''"
proof -
  have rd: "osReadFile staleFS (requestsDir exampleCM @ [''users'', ''post-user''] @ [''admin'' @ ''.json'']) = Inl ENOENT"
    by (simp add: fs_eval staleFS_def)
  have ok: "\<not> newRequestRejects exampleLib ''POST'' u" for u
    by (simp add: exampleLib_def)
  have ab: "ActiveBody \<lparr>Name = ''example'', Description = [], Method = ''POST'', URL = ''/v1/x'',
          Headers = [], Cookies = [], Body = ''inline'',
          ActiveBody = ''admin'', Params = [], Timeout = 0\<rparr> \<noteq> []" by simp
  from conjunct2[OF active_body_fallback[OF ab, of exampleCM staleFS "[''users'', ''post-user'']" exampleLib "''dev''"]]
    staleFS_load staleFS_env ok rd
  show ?thesis by simp
qed

section \<open>Body variants: activation and removal\<close>

text \<open>
  C5, as stated, fails: the record is loaded before the variant file is looked at. With
  neither record nor variant file, the call fails with the error of loading the request,
  not with the error for a missing body file.
\<close>

theorem set_active_body_counterexample:
  "SetActiveBody exampleLib exampleCM [([''requests''], Dir)] [''login''] ''admin'' =
     (Some (LoadingRequest (ReadingConfigFile ENOENT)), [([''requests''], Dir)])"
  by (simp add: fs_eval SetActiveBody_def LoadRequest_def)

text \<open>
  C5, amended: when the record cannot be loaded, \<open>SetActiveBody\<close> fails with the load
  error and changes nothing, whether or not the variant file exists. When the record
  loads, the call fails with the error for a missing body file if and only if
  \<^verbatim>\<open>os.Stat\<close> reports that \<^verbatim>\<open><dir>/<name>.json\<close> does not exist, and then nothing is
  written. When the record loads, the variant file exists and the request is stored in
  the directory layout (there is no flat file \<^verbatim>\<open><path>.json\<close>), the call succeeds, the
  record that \<open>LoadRequest\<close> reads afterwards is the record with \<open>ActiveBody\<close> set to the
  name, for a codec that reads back what it wrote, and nothing but the record file
  changes.
\<close>

theorem set_active_body:
  "(LoadRequest L cm fs requestPath = Inl err \<longrightarrow>
      SetActiveBody L cm fs requestPath bodyName = (Some (LoadingRequest err), fs)) \<and>
   (LoadRequest L cm fs requestPath = Inr config \<longrightarrow>
      ((fst (SetActiveBody L cm fs requestPath bodyName) =
          Some (BodyFileDoesNotExistIn bodyName requestPath)) =
       (osStat fs (requestsDir cm @ requestPath @ [bodyName @ ''.json'']) = Inl ENOENT)) \<and>
      (osStat fs (requestsDir cm @ requestPath @ [bodyName @ ''.json'']) = Inl ENOENT \<longrightarrow>
         snd (SetActiveBody L cm fs requestPath bodyName) = fs) \<and>
      (osStat fs (requestsDir cm @ requestPath @ [bodyName @ ''.json'']) \<noteq> Inl ENOENT \<and>
       osStat fs (requestsDir cm @ addExt requestPath ''.json'') = Inl ENOENT \<and>
       jsonUnmarshalRequest L (jsonMarshalRequest L (config\<lparr>ActiveBody := bodyName\<rparr>)) =
         Some (config\<lparr>ActiveBody := bodyName\<rparr>) \<longrightarrow>
         (\<exists>fs'. SetActiveBody L cm fs requestPath bodyName = (None, fs') \<and>
            LoadRequest L cm fs' requestPath = Inr (config\<lparr>ActiveBody := bodyName\<rparr>) \<and>
            (\<forall>q. \<not> prefix (requestsDir cm @ requestPath @ [''request.json'']) q \<longrightarrow>
                 osStat fs' q = osStat fs q))))"
proof (intro conjI impI)
  assume "LoadRequest L cm fs requestPath = Inl err"
  then show "SetActiveBody L cm fs requestPath bodyName = (Some (LoadingRequest err), fs)"
    by (simp add: SetActiveBody_def)
next
  assume lr: "LoadRequest L cm fs requestPath = Inr config"
  show "(fst (SetActiveBody L cm fs requestPath bodyName) =
          Some (BodyFileDoesNotExistIn bodyName requestPath)) =
       (osStat fs (requestsDir cm @ requestPath @ [bodyName @ ''.json'']) = Inl ENOENT)"
    using lr SaveRequest_error[of L cm fs requestPath "config\<lparr>ActiveBody := bodyName\<rparr>" bodyName requestPath]
    by (simp add: SetActiveBody_def)
next
  assume lr: "LoadRequest L cm fs requestPath = Inr config"
    and "osStat fs (requestsDir cm @ requestPath @ [bodyName @ ''.json'']) = Inl ENOENT"
  then show "snd (SetActiveBody L cm fs requestPath bodyName) = fs"
    by (simp add: SetActiveBody_def)
next
  assume lr: "LoadRequest L cm fs requestPath = Inr config"
    and h: "osStat fs (requestsDir cm @ requestPath @ [bodyName @ ''.json'']) \<noteq> Inl ENOENT \<and>
       osStat fs (requestsDir cm @ addExt requestPath ''.json'') = Inl ENOENT \<and>
       jsonUnmarshalRequest L (jsonMarshalRequest L (config\<lparr>ActiveBody := bodyName\<rparr>)) =
         Some (config\<lparr>ActiveBody := bodyName\<rparr>)"
  show "\<exists>fs'. SetActiveBody L cm fs requestPath bodyName = (None, fs') \<and>
            LoadRequest L cm fs' requestPath = Inr (config\<lparr>ActiveBody := bodyName\<rparr>) \<and>
            (\<forall>q. \<not> prefix (requestsDir cm @ requestPath @ [''request.json'']) q \<longrightarrow>
                 osStat fs' q = osStat fs q)"
    by (rule set_active_body_directory_layout[OF lr conjunct1[OF h] conjunct1[OF conjunct2[OF h]]
          conjunct2[OF conjunct2[OF h]]])
qed

text \<open>
  C5, witness: the request \<^verbatim>\<open>users/post-user\<close> has the variants \<^verbatim>\<open>admin\<close> and \<^verbatim>\<open>guest\<close>, and
  \<^verbatim>\<open>admin\<close> is active. Activating \<^verbatim>\<open>guest\<close> succeeds and the record read back names \<^verbatim>\<open>guest\<close>;
  activating the missing variant \<^verbatim>\<open>nobody\<close> fails with the error for a missing body file;
  activating a variant of a request that does not exist fails with the load error.
\<close>

theorem set_active_body_witness:
  "map_sum id ActiveBody (LoadRequest exampleLib exampleCM twoVariantsFS [''users'', ''post-user'']) =
     Inr ''admin'' \<and>
   (\<exists>fs'. SetActiveBody exampleLib exampleCM twoVariantsFS [''users'', ''post-user''] ''guest'' = (None, fs') \<and>
      map_sum id ActiveBody (LoadRequest exampleLib exampleCM fs' [''users'', ''post-user'']) = Inr ''guest'' \<and>
      osStat fs' [''requests'', ''users'', ''post-user'', ''admin.json''] = Inr (File ''admin body'')) \<and>
   SetActiveBody exampleLib exampleCM twoVariantsFS [''users'', ''post-user''] ''nobody'' =
     (Some (BodyFileDoesNotExistIn ''nobody'' [''users'', ''post-user'']), twoVariantsFS) \<and>
   SetActiveBody exampleLib exampleCM twoVariantsFS [''users'', ''absent''] ''guest'' =
     (Some (LoadingRequest (ReadingConfigFile ENOENT)), twoVariantsFS)"
proof -
  have a: "osStat twoVariantsFS (requestsDir exampleCM @ [''users'', ''post-user''] @ [''guest'' @ ''.json'']) \<noteq> Inl ENOENT"
    by (simp add: fs_eval twoVariantsFS_def)
  have b: "osStat twoVariantsFS (requestsDir exampleCM @ addExt [''users'', ''post-user''] ''.json'') = Inl ENOENT"
    by (simp add: fs_eval twoVariantsFS_def)
  have c: "jsonUnmarshalRequest exampleLib
             (jsonMarshalRequest exampleLib (exampleRecord\<lparr>ActiveBody := ''admin'', ActiveBody := ''guest''\<rparr>)) =
           Some (exampleRecord\<lparr>ActiveBody := ''admin'', ActiveBody := ''guest''\<rparr>)"
    by (simp add: exampleLib_def exampleRecord_def)
  have np: "\<not> prefix (requestsDir exampleCM @ [''users'', ''post-user''] @ [''request.json''])
                     [''requests'', ''users'', ''post-user'', ''admin.json'']"
    by (simp add: exampleCM_def)
  have ad: "osStat twoVariantsFS [''requests'', ''users'', ''post-user'', ''admin.json''] = Inr (File ''admin body'')"
    by (simp add: fs_eval twoVariantsFS_def)
  have 1: "map_sum id ActiveBody (LoadRequest exampleLib exampleCM twoVariantsFS [''users'', ''post-user'']) =
     Inr ''admin''"
    by (simp add: twoVariantsFS_load)
  note t = set_active_body[where L = exampleLib and cm = exampleCM and fs = twoVariantsFS
      and requestPath = "[''users'', ''post-user'']" and bodyName = "''guest''"
      and config = "exampleRecord\<lparr>ActiveBody := ''admin''\<rparr>"]
  from conjunct2[OF conjunct2[OF mp[OF conjunct2[OF t] twoVariantsFS_load]]] a b c
  obtain fs' where f: "SetActiveBody exampleLib exampleCM twoVariantsFS [''users'', ''post-user''] ''guest'' = (None, fs')"
      "LoadRequest exampleLib exampleCM fs' [''users'', ''post-user''] =
         Inr (exampleRecord\<lparr>ActiveBody := ''admin'', ActiveBody := ''guest''\<rparr>)"
      "\<forall>q. \<not> prefix (requestsDir exampleCM @ [''users'', ''post-user''] @ [''request.json'']) q \<longrightarrow>
           osStat fs' q = osStat twoVariantsFS q"
    by blast
  from f(3) np ad
  have "osStat fs' [''requests'', ''users'', ''post-user'', ''admin.json''] = Inr (File ''admin body'')"
    by simp
  with f(1) f(2)
  have 2: "\<exists>fs'. SetActiveBody exampleLib exampleCM twoVariantsFS [''users'', ''post-user''] ''guest'' = (None, fs') \<and>
      map_sum id ActiveBody (LoadRequest exampleLib exampleCM fs' [''users'', ''post-user'']) = Inr ''guest'' \<and>
      osStat fs' [''requests'', ''users'', ''post-user'', ''admin.json''] = Inr (File ''admin body'')"
    by simp
  note t2 = set_active_body[where L = exampleLib and cm = exampleCM and fs = twoVariantsFS
      and requestPath = "[''users'', ''post-user'']" and bodyName = "''nobody''"
      and config = "exampleRecord\<lparr>ActiveBody := ''admin''\<rparr>"]
  have n: "osStat twoVariantsFS (requestsDir exampleCM @ [''users'', ''post-user''] @ [''nobody'' @ ''.json'']) = Inl ENOENT"
    by (simp add: fs_eval twoVariantsFS_def)
  from mp[OF conjunct2[OF t2] twoVariantsFS_load] n
  have "fst (SetActiveBody exampleLib exampleCM twoVariantsFS [''users'', ''post-user''] ''nobody'') =
          Some (BodyFileDoesNotExistIn ''nobody'' [''users'', ''post-user'']) \<and>
        snd (SetActiveBody exampleLib exampleCM twoVariantsFS [''users'', ''post-user''] ''nobody'') = twoVariantsFS"
    by simp
  then have 3: "SetActiveBody exampleLib exampleCM twoVariantsFS [''users'', ''post-user''] ''nobody'' =
     (Some (BodyFileDoesNotExistIn ''nobody'' [''users'', ''post-user'']), twoVariantsFS)"
    by (simp add: prod_eq_iff)
  have l: "LoadRequest exampleLib exampleCM twoVariantsFS [''users'', ''absent''] = Inl (ReadingConfigFile ENOENT)"
    by (simp add: fs_eval twoVariantsFS_def LoadRequest_def)
  from mp[OF conjunct1[OF set_active_body[where L = exampleLib and cm = exampleCM and fs = twoVariantsFS
      and requestPath = "[''users'', ''absent'']" and bodyName = "''guest''"
      and err = "ReadingConfigFile ENOENT"]] l]
  have 4: "SetActiveBody exampleLib exampleCM twoVariantsFS [''users'', ''absent''] ''guest'' =
     (Some (LoadingRequest (ReadingConfigFile ENOENT)), twoVariantsFS)" .
  from 1 2 3 4 show ?thesis by (intro conjI)
qed

text \<open>
  C4: removing the active variant does not always leave an empty \<open>ActiveBody\<close> on
  reload. The record \<^verbatim>\<open>requests/login.json\<close> names the variant \<^verbatim>\<open>admin\<close>, which lies in the
  directory \<^verbatim>\<open>requests/login\<close>. \<open>RemoveBody\<close> succeeds and deletes the variant; it reads
  the record from the flat file, but saves the cleared record to
  \<^verbatim>\<open>requests/login/request.json\<close>, because the directory exists. The flat file is what
  \<open>LoadRequest\<close> reads afterwards, and it still names \<^verbatim>\<open>admin\<close>.
\<close>

theorem remove_body_mixed_layout:
  "map_sum id ActiveBody (LoadRequest exampleLib exampleCM mixedFS [''login'']) = Inr ''admin'' \<and>
   fst (RemoveBody exampleLib exampleCM mixedFS [''login''] ''admin'') = None \<and>
   map_sum id ActiveBody
     (LoadRequest exampleLib exampleCM
        (snd (RemoveBody exampleLib exampleCM mixedFS [''login''] ''admin'')) [''login'']) = Inr ''admin'' \<and>
   osStat (snd (RemoveBody exampleLib exampleCM mixedFS [''login''] ''admin''))
     [''requests'', ''login'', ''admin.json''] = Inl ENOENT \<and>
   osReadFile (snd (RemoveBody exampleLib exampleCM mixedFS [''login''] ''admin''))
     [''requests'', ''login'', ''request.json''] = Inr ''activeBody=''"
proof -
  have r: "RemoveBody exampleLib exampleCM mixedFS [''login''] ''admin'' =
     (None,
      [([''requests''], Dir),
       ([''requests'', ''login.json''], File ''activeBody=admin''),
       ([''requests'', ''login''], Dir),
       ([''requests'', ''login'', ''request.json''], File ''activeBody='')])"
    by (simp add: fs_eval mixedFS_def RemoveBody_def LoadRequest_def SaveRequest_def writeConfigFile_def)
  show ?thesis
    unfolding r by (simp add: fs_eval mixedFS_def LoadRequest_def)
qed

text \<open>
  C10: when the variant file can be removed and the record cannot be loaded afterwards,
  \<open>RemoveBody\<close> returns the load error, the variant file is gone, and nothing else on
  disk has changed; in particular no record was rewritten.
\<close>

theorem remove_body_not_atomic:
  "osRemove fs (requestsDir cm @ requestPath @ [bodyName @ ''.json'']) = Inr fs1 \<Longrightarrow>
   LoadRequest L cm fs1 requestPath = Inl err \<Longrightarrow>
   RemoveBody L cm fs requestPath bodyName = (Some (LoadingRequest err), fs1) \<and>
   osStat fs1 (requestsDir cm @ requestPath @ [bodyName @ ''.json'']) = Inl ENOENT \<and>
   (\<forall>q. \<not> prefix (requestsDir cm @ requestPath @ [bodyName @ ''.json'']) q \<longrightarrow>
        osStat fs1 q = osStat fs q)"
proof -
  let ?body = "requestsDir cm @ requestPath @ [bodyName @ ''.json'']"
  assume rm: "osRemove fs ?body = Inr fs1" and lr: "LoadRequest L cm fs1 requestPath = Inl err"
  note ok = osRemove_ok[OF rm]
  from ok have ex: "osStat fs ?body \<noteq> Inl ENOENT" by auto
  have res: "RemoveBody L cm fs requestPath bodyName = (Some (LoadingRequest err), fs1)"
    using rm lr ex by (simp add: RemoveBody_def)
  have gone: "osStat fs1 ?body = Inl ENOENT"
    using ok osStat_delete_same[of ?body fs] by simp
  have fr: "\<forall>q. \<not> prefix ?body q \<longrightarrow> osStat fs1 q = osStat fs q"
    using ok by (simp add: osStat_delete_other)
  from res gone fr show ?thesis by blast
qed

text \<open>C10, witness: the record file is no JSON, the variant \<^verbatim>\<open>admin\<close> is removed all the same.\<close>

theorem remove_body_not_atomic_witness:
  "RemoveBody exampleLib exampleCM brokenFS [''login''] ''admin'' =
     (Some (LoadingRequest ParsingConfigFile),
      [([''requests''], Dir),
       ([''requests'', ''login''], Dir),
       ([''requests'', ''login'', ''request.json''], File ''not json'')]) \<and>
   osStat [([''requests''], Dir),
       ([''requests'', ''login''], Dir),
       ([''requests'', ''login'', ''request.json''], File ''not json'')]
     [''requests'', ''login'', ''admin.json''] = Inl ENOENT"
proof -
  let ?fs1 = "[([''requests''], Dir),
       ([''requests'', ''login''], Dir),
       ([''requests'', ''login'', ''request.json''], File ''not json'')]"
  have rm: "osRemove brokenFS (requestsDir exampleCM @ [''login''] @ [''admin'' @ ''.json'']) = Inr ?fs1"
    by (simp add: fs_eval brokenFS_def)
  have lr: "LoadRequest exampleLib exampleCM ?fs1 [''login''] = Inl ParsingConfigFile"
    by (simp add: fs_eval LoadRequest_def)
  have p: "requestsDir exampleCM @ [''login''] @ [''admin'' @ ''.json''] = [''requests'', ''login'', ''admin.json'']"
    by (simp add: exampleCM_def)
  from remove_body_not_atomic[OF rm lr] show ?thesis unfolding p by simp
qed

section \<open>Listing requests\<close>

text \<open>
  C6: for the request \<^verbatim>\<open>users/post-user\<close> stored in the directory layout, with the record
  file \<^verbatim>\<open>request.json\<close> and the variant file \<^verbatim>\<open>admin.json\<close>, \<open>ListRequests\<close> returns the
  variant and the record file as the logical paths \<^verbatim>\<open>users/post-user/admin\<close> and
  \<^verbatim>\<open>users/post-user/request\<close>, and these only: both are spurious, and the request
  \<^verbatim>\<open>users/post-user\<close> itself is not listed. On the same store \<open>ListBodies\<close> does tell the
  record file from the variant: it returns the one variant \<^verbatim>\<open>admin\<close>.
\<close>

theorem list_requests_lists_variants:
  "ListRequests exampleCM exampleFS =
     ([''users/post-user'' \<mapsto> [''users/post-user/admin'', ''users/post-user/request'']], None) \<and>
   ListBodies exampleLib exampleCM exampleFS [''users'', ''post-user''] = Inr ([''admin''], ''admin'')"
proof
  show "ListRequests exampleCM exampleFS =
     ([''users/post-user'' \<mapsto> [''users/post-user/admin'', ''users/post-user/request'']], None)"
    by (simp add: ListRequests_def walkFiles_def isFile_def addRequest_def relPathOf_def dirOf_def
        trimSuffix_def hasSuffix_def suffix_to_prefix fs_eval exampleFS_def)
next
  have rd: "osReadDir exampleFS (requestsDir exampleCM @ [''users'', ''post-user'']) =
            Inr [''admin.json'', ''request.json'']"
    by (simp add: osReadDir_def fs_eval exampleFS_def)
  have f: "isFile exampleFS (requestsDir exampleCM @ [''users'', ''post-user''] @ [''admin.json''])"
    by (simp add: isFile_def fs_eval exampleFS_def)
  show "ListBodies exampleLib exampleCM exampleFS [''users'', ''post-user''] = Inr ([''admin''], ''admin'')"
    using f by (simp add: ListBodies_def exampleFS_load rd trimSuffix_def hasSuffix_def suffix_to_prefix)
qed

section \<open>Seeding of a workspace\<close>

text \<open>
  C8, as stated, fails for the environments: the code does not look whether the
  environment root is empty, it looks for each default file by itself. In a workspace whose
  environment root holds \<^verbatim>\<open>staging.json\<close> only, \<^verbatim>\<open>dev.json\<close> is created.
\<close>

theorem seeding_counterexample:
  "osReadDir seededFS (environmentsDir (workspace [])) = Inr [''staging.json''] \<and>
   osStat seededFS [''environments'', ''dev.json''] = Inl ENOENT \<and>
   osStat (snd (initializeDefaultFiles exampleLib (workspace []) seededFS)) [''environments'', ''dev.json''] =
     Inr (File ''baseURL=http://localhost:3000'')"
  unfolding seededFS_init
  by (simp add: workspace_def seededFS_def osReadDir_def fs_eval)

text \<open>
  C8, amended: seeding never overwrites or removes anything: what a path holds before, it
  holds afterwards. When the request root is not empty, nothing below the request root
  changes. Each of the two default environments is written whenever its own file does not
  exist and the environment root is a directory, whatever else the environment root
  holds.
\<close>

theorem seeding:
  "(osStat fs q = Inr n \<longrightarrow>
      osStat (snd (initializeDefaultFiles L (workspace cwd) fs)) q = Inr n) \<and>
   (osReadDir fs (requestsDir (workspace cwd)) = Inr entries \<and> entries \<noteq> [] \<and>
    prefix (requestsDir (workspace cwd)) q \<longrightarrow>
      osStat (snd (initializeDefaultFiles L (workspace cwd) fs)) q = osStat fs q) \<and>
   ((name, env) \<in> set defaultEnvs \<and>
    osStat fs (environmentsDir (workspace cwd)) = Inr Dir \<and>
    osStat fs (environmentsDir (workspace cwd) @ [name @ ''.json'']) = Inl ENOENT \<longrightarrow>
      osStat (snd (initializeDefaultFiles L (workspace cwd) fs))
        (environmentsDir (workspace cwd) @ [name @ ''.json'']) =
        Inr (File (jsonMarshalEnvironment L env)))"
proof (intro conjI impI)
  let ?cm = "workspace cwd"
  let ?fs1 = "snd (writeDefaultEnvs L ?cm defaultEnvs fs)"
  {
    assume "osStat fs q = Inr n"
    from initializeDefaultFiles_after_envs[OF writeDefaultEnvs_preserves[OF this]]
    show "osStat (snd (initializeDefaultFiles L ?cm fs)) q = Inr n" .
  next
    assume h: "osReadDir fs (requestsDir ?cm) = Inr entries \<and> entries \<noteq> [] \<and>
               prefix (requestsDir ?cm) q"
    then obtain c m where "osStat fs (requestsDir ?cm @ [c]) = Inr m"
      using osReadDir_nonempty_child[of fs "requestsDir ?cm" entries] by blast
    from writeDefaultEnvs_preserves[OF this]
    have "osStat ?fs1 (requestsDir ?cm @ [c]) = Inr m" .
    from osReadDir_child[OF this] obtain es where es: "osReadDir ?fs1 (requestsDir ?cm) = Inr es" "es \<noteq> []"
      by blast
    have same: "snd (initializeDefaultFiles L ?cm fs) = ?fs1"
      using initializeDefaultFiles_cases[of L ?cm fs] es by auto
    have "\<not> prefix (environmentsDir ?cm) q"
      using h not_below_sibling[of cwd "''requests''" q "''environments''"]
      by (simp add: workspace_def)
    from writeDefaultEnvs_outside[OF this] same
    show "osStat (snd (initializeDefaultFiles L ?cm fs)) q = osStat fs q" by simp
  next
    assume h: "(name, env) \<in> set defaultEnvs \<and>
               osStat fs (environmentsDir ?cm) = Inr Dir \<and>
               osStat fs (environmentsDir ?cm @ [name @ ''.json'']) = Inl ENOENT"
    have dist: "distinct (map fst defaultEnvs)" by (simp add: defaultEnvs_def)
    from h writeDefaultEnvs_writes[OF _ dist, of fs ?cm name env L]
    have "osStat ?fs1 (environmentsDir ?cm @ [name @ ''.json'']) =
            Inr (File (jsonMarshalEnvironment L env))" by blast
    from initializeDefaultFiles_after_envs[OF this]
    show "osStat (snd (initializeDefaultFiles L ?cm fs)) (environmentsDir ?cm @ [name @ ''.json'']) =
            Inr (File (jsonMarshalEnvironment L env))" .
  }
qed

text \<open>
  C8, witness: in a workspace with one environment and one request, both stay as they
  are and \<^verbatim>\<open>prod.json\<close> is written.
\<close>

theorem seeding_witness:
  "osStat (snd (initializeDefaultFiles exampleLib (workspace []) seededFS)) [''environments'', ''staging.json''] =
     Inr (File ''baseURL=https://staging.example.com'') \<and>
   osStat (snd (initializeDefaultFiles exampleLib (workspace []) seededFS)) [''requests'', ''ping.json''] =
     Inr (File ''activeBody='') \<and>
   osStat (snd (initializeDefaultFiles exampleLib (workspace []) seededFS)) [''environments'', ''prod.json''] =
     Inr (File ''baseURL=https://api.example.com'')"
proof -
  have a: "osStat seededFS [''environments'', ''staging.json''] = Inr (File ''baseURL=https://staging.example.com'')"
    by (simp add: seededFS_def fs_eval)
  have b: "osReadDir seededFS (requestsDir (workspace [])) = Inr [''ping.json''] \<and> [''ping.json''] \<noteq> [] \<and>
           prefix (requestsDir (workspace [])) [''requests'', ''ping.json'']"
    by (simp add: workspace_def seededFS_def osReadDir_def fs_eval)
  have b': "osStat seededFS [''requests'', ''ping.json''] = Inr (File ''activeBody='')"
    by (simp add: seededFS_def fs_eval)
  have c: "(''prod'', snd (defaultEnvs ! 1)) \<in> set defaultEnvs \<and>
           osStat seededFS (environmentsDir (workspace [])) = Inr Dir \<and>
           osStat seededFS (environmentsDir (workspace []) @ [''prod'' @ ''.json'']) = Inl ENOENT"
    by (simp add: defaultEnvs_def workspace_def seededFS_def fs_eval)
  have m: "jsonMarshalEnvironment exampleLib (snd (defaultEnvs ! 1)) = ''baseURL=https://api.example.com''"
    by (simp add: defaultEnvs_def exampleLib_def)
  have p: "environmentsDir (workspace []) @ [''prod'' @ ''.json''] = [''environments'', ''prod.json'']"
    by (simp add: workspace_def)
  note s1 = seeding[where fs = seededFS and L = exampleLib and cwd = "[]"
      and q = "[''environments'', ''staging.json'']" and n = "File ''baseURL=https://staging.example.com''"
      and name = "''prod''" and env = "snd (defaultEnvs ! 1)"]
  note s2 = seeding[where fs = seededFS and L = exampleLib and cwd = "[]"
      and q = "[''requests'', ''ping.json'']" and entries = "[''ping.json'']"]
  from conjunct1[OF s1] a
  have 1: "osStat (snd (initializeDefaultFiles exampleLib (workspace []) seededFS)) [''environments'', ''staging.json''] =
     Inr (File ''baseURL=https://staging.example.com'')" by (rule mp)
  from conjunct1[OF conjunct2[OF s2]] b
  have "osStat (snd (initializeDefaultFiles exampleLib (workspace []) seededFS)) [''requests'', ''ping.json''] =
        osStat seededFS [''requests'', ''ping.json'']" by (rule mp)
  then have 2: "osStat (snd (initializeDefaultFiles exampleLib (workspace []) seededFS)) [''requests'', ''ping.json''] =
     Inr (File ''activeBody='')" unfolding b' .
  from conjunct2[OF conjunct2[OF s1]] c
  have "osStat (snd (initializeDefaultFiles exampleLib (workspace []) seededFS))
        (environmentsDir (workspace []) @ [''prod'' @ ''.json'']) =
        Inr (File (jsonMarshalEnvironment exampleLib (snd (defaultEnvs ! 1))))" by (rule mp)
  then have 3: "osStat (snd (initializeDefaultFiles exampleLib (workspace []) seededFS)) [''environments'', ''prod.json''] =
     Inr (File ''baseURL=https://api.example.com'')" unfolding m p .
  from 1 2 3 show ?thesis by (intro conjI)
qed

end
